theory Spec2Isabelle
  imports Main "HOL-Library.AList"
begin

section \<open>JavaScript strings\<close>

text \<open>
  A JavaScript string is modelled as a \<^typ>\<open>string\<close>; one \<^typ>\<open>char\<close> stands for one
  code unit.  Case conversion and whitespace are the ASCII ones (plus the no-break space);
  the regular expressions of the program (\<open>\w\<close>, the \<open>i\<close> flag without the \<open>u\<close> flag)
  are ASCII-only in JavaScript as well.
\<close>

definition lower_letters :: string where
  "lower_letters = ''abcdefghijklmnopqrstuvwxyz''"

definition upper_letters :: string where
  "upper_letters = ''ABCDEFGHIJKLMNOPQRSTUVWXYZ''"

definition toUpperCase_chr :: "char \<Rightarrow> char" where
  "toUpperCase_chr c =
     (case map_of (zip lower_letters upper_letters) c of None \<Rightarrow> c | Some u \<Rightarrow> u)"

definition toUpperCase :: "string \<Rightarrow> string" where
  "toUpperCase s = map toUpperCase_chr s"

definition toLowerCase_chr :: "char \<Rightarrow> char" where
  "toLowerCase_chr c =
     (case map_of (zip upper_letters lower_letters) c of None \<Rightarrow> c | Some l \<Rightarrow> l)"

definition toLowerCase :: "string \<Rightarrow> string" where
  "toLowerCase s = map toLowerCase_chr s"

definition is_space :: "char \<Rightarrow> bool" where
  "is_space c = ((of_char c :: nat) \<in> {9, 10, 11, 12, 13, 32, 160})"

definition trim :: "string \<Rightarrow> string" where
  "trim s = rev (dropWhile is_space (rev (dropWhile is_space s)))"

text \<open>\<open>s.includes(sub)\<close>: \<open>sub\<close> occurs in \<open>s\<close> as a contiguous substring.\<close>

fun str_includes :: "string \<Rightarrow> string \<Rightarrow> bool" where
  "str_includes [] sub = (sub = [])"
| "str_includes (c # cs) sub = (take (length sub) (c # cs) = sub \<or> str_includes cs sub)"

text \<open>\<open>s.split(d)\<close> for a one-character separator, and \<open>xs.join(d)\<close>.\<close>

fun split_on :: "char \<Rightarrow> string \<Rightarrow> string list" where
  "split_on d [] = [[]]"
| "split_on d (c # cs) =
     (if c = d then [] # split_on d cs
      else (case split_on d cs of [] \<Rightarrow> [[c]] | w # ws \<Rightarrow> (c # w) # ws))"

fun join :: "string \<Rightarrow> string list \<Rightarrow> string" where
  "join d [] = []"
| "join d [x] = x"
| "join d (x # y # ys) = x @ d @ join d (y # ys)"

text \<open>
  \<open>s.replace(/<suf>$/i, r)\<close> for a literal, lower-case \<open>suf\<close>: the pattern is anchored at
  the end of the string and compared without regard to ASCII case.
\<close>

definition replace_end_ci :: "string \<Rightarrow> string \<Rightarrow> string \<Rightarrow> string" where
  "replace_end_ci suf r s =
     (let n = length s - length suf in
      if length suf \<le> length s \<and> toLowerCase (drop n s) = suf then take n s @ r else s)"

text \<open>
  \<open>path.extname\<close> of Node (POSIX): the part of the last path component from its last dot on;
  empty when there is no dot, when the only dot starts the component, and for \<open>..\<close>.
\<close>

definition extname :: "string \<Rightarrow> string" where
  "extname p =
     (let q = rev (dropWhile (\<lambda>c. c = CHR ''/'') (rev p));
          base = rev (takeWhile (\<lambda>c. c \<noteq> CHR ''/'') (rev q));
          e = rev (takeWhile (\<lambda>c. c \<noteq> CHR ''.'') (rev base))
      in if CHR ''.'' \<notin> set base then []
         else if length e + 1 = length base then []
         else if base = ''..'' then []
         else CHR ''.'' # e)"

text \<open>Decimal rendering of numbers, as string concatenation does it.\<close>

function string_of_nat :: "nat \<Rightarrow> string" where
  "string_of_nat n =
     (if n < 10 then [''0123456789'' ! n]
      else string_of_nat (n div 10) @ [''0123456789'' ! (n mod 10)])"
  by pat_completeness auto
termination
  by (relation "measure id") auto

declare string_of_nat.simps [simp del]

definition string_of_int :: "int \<Rightarrow> string" where
  "string_of_int i = (if i < 0 then CHR ''-'' # string_of_nat (nat (- i)) else string_of_nat (nat i))"

section \<open>Constants of the program\<close>

definition expireDelay :: nat where
  "expireDelay = 10 * 60"

definition maxExpireDuration :: nat where
  "maxExpireDuration = 1 * 60 * 60"

definition TYPE_EPUB :: string where
  "TYPE_EPUB = ''application/epub+zip''"

definition TYPE_MOBI :: string where
  "TYPE_MOBI = ''application/x-mobipocket-ebook''"

definition allowedTypes :: "string list" where
  "allowedTypes =
     [TYPE_EPUB, TYPE_MOBI, ''application/pdf'', ''application/vnd.comicbook+zip'',
      ''application/vnd.comicbook-rar'', ''text/html'', ''text/plain'', ''application/zip'',
      ''application/x-rar-compressed'']"

definition allowedExtensions :: "string list" where
  "allowedExtensions = [''epub'', ''mobi'', ''pdf'', ''cbz'', ''cbr'', ''html'', ''txt'']"

definition keyChars :: string where
  "keyChars = ''23456789ACDEFGHJKLMNPRSTUVWXYZ''"

definition keyLength :: nat where
  "keyLength = 4"

section \<open>Key generator\<close>

text \<open>
  \<open>n.toString(radix)\<close> for a non-negative integer: its digits, most significant first,
  written with \<open>0-9a-z\<close>; and \<open>parseInt(chr, radix)\<close> for a single character, \<open>NaN\<close>
  being \<open>None\<close>.
\<close>

function to_digits :: "nat \<Rightarrow> nat \<Rightarrow> nat list" where
  "to_digits radix n =
     (if n < radix \<or> radix < 2 then [n] else to_digits radix (n div radix) @ [n mod radix])"
  by pat_completeness auto
termination
  by (relation "measure snd") auto

declare to_digits.simps [simp del]

definition digit_char :: "nat \<Rightarrow> char" where
  "digit_char d = ''0123456789abcdefghijklmnopqrstuvwxyz'' ! d"

definition toString_radix :: "nat \<Rightarrow> nat \<Rightarrow> string" where
  "toString_radix radix n = map digit_char (to_digits radix n)"

definition padStart :: "nat \<Rightarrow> char \<Rightarrow> string \<Rightarrow> string" where
  "padStart l c s = replicate (l - length s) c @ s"

definition parseInt_chr :: "nat \<Rightarrow> char \<Rightarrow> nat option" where
  "parseInt_chr radix c =
     (let n = (of_char c :: nat);
          d = (if 48 \<le> n \<and> n \<le> 57 then Some (n - 48)
               else if 97 \<le> n \<and> n \<le> 122 then Some (n - 87)
               else if 65 \<le> n \<and> n \<le> 90 then Some (n - 55)
               else None)
      in case d of None \<Rightarrow> None | Some v \<Rightarrow> if v < radix then Some v else None)"

text \<open>
  \<open>keyChars[parseInt(chr, keyChars.length)]\<close>, joined: an index that is \<open>NaN\<close> or out of
  range reads \<open>undefined\<close>, which \<open>join\<close> writes as the empty string.
\<close>

definition key_symbol :: "char \<Rightarrow> string" where
  "key_symbol chr =
     (case parseInt_chr (length keyChars) chr of
        None \<Rightarrow> []
      | Some d \<Rightarrow> if d < length keyChars then [keyChars ! d] else [])"


text \<open>
  \<open>randomKey\<close>, as a function of \<open>rnd = Math.floor(Math.random() * choices)\<close>, a number
  below \<open>choices\<close>.
\<close>

definition randomKey :: "nat \<Rightarrow> string" where
  "randomKey rnd =
     concat (map key_symbol (padStart keyLength (CHR ''0'') (toString_radix (length keyChars) rnd)))"

section \<open>Session registry\<close>

text \<open>
  \<open>app.context.keys\<close> is a \<open>Map\<close> from keys to \<open>info\<close> objects.  The objects are shared
  and compared by identity (\<open>ctx.keys.get(key) === info\<close>), so the model keeps them in a
  store: the registry maps a key to a reference, and \<open>heap\<close> maps a reference to the
  object.  Pending timeouts are a list; \<open>fs\<close> is the set of files that exist under
  \<open>uploads\<close>; \<open>now\<close> is the clock in milliseconds (\<open>new Date()\<close>).
\<close>

record fileRecord =
  name :: string
  path :: string
  uploaded :: nat
  conversion :: "string option"

record info =
  created :: nat
  agent :: string
  files :: "fileRecord list"
  urls :: "string list"
  timer :: "nat option"
  alive :: nat

text \<open>
  The two callbacks given to \<open>setTimeout\<close>: \<open>removeKey\<close> with its argument, and the
  hard-cap closure of \<open>/generate\<close>, which holds the key and the \<open>info\<close> object.
\<close>

datatype callback = RemoveKey string | HardCap string nat

record timeout =
  handle :: nat
  due :: nat
  callback :: callback

record state =
  keys :: "(string \<times> nat) list"
  heap :: "(nat \<times> info) list"
  timers :: "timeout list"
  fs :: "string set"
  now :: nat
  next_handle :: nat
  next_ref :: nat

definition init_state :: state where
  "init_state = \<lparr>keys = [], heap = [], timers = [], fs = {}, now = 0, next_handle = 0, next_ref = 0\<rparr>"

text \<open>\<open>ctx.keys.get(key)\<close>: the reference registered under the key, with its object.\<close>

definition keys_get :: "state \<Rightarrow> string \<Rightarrow> (nat \<times> info) option" where
  "keys_get s key =
     (case map_of (keys s) key of
        None \<Rightarrow> None
      | Some r \<Rightarrow> (case map_of (heap s) r of None \<Rightarrow> None | Some i \<Rightarrow> Some (r, i)))"

text \<open>An assignment to fields of the object behind a reference.\<close>

definition heap_upd :: "nat \<Rightarrow> (info \<Rightarrow> info) \<Rightarrow> state \<Rightarrow> state" where
  "heap_upd r f s =
     (case map_of (heap s) r of
        None \<Rightarrow> s
      | Some i \<Rightarrow> s\<lparr>heap := AList.update r (f i) (heap s)\<rparr>)"

definition setTimeout :: "callback \<Rightarrow> nat \<Rightarrow> state \<Rightarrow> nat \<times> state" where
  "setTimeout cb delay s =
     (next_handle s,
      s\<lparr>timers := timers s @ [\<lparr>handle = next_handle s, due = now s + delay, callback = cb\<rparr>],
        next_handle := next_handle s + 1\<rparr>)"

definition clearTimeout :: "nat option \<Rightarrow> state \<Rightarrow> state" where
  "clearTimeout h s =
     (case h of None \<Rightarrow> s | Some x \<Rightarrow> s\<lparr>timers := filter (\<lambda>t. handle t \<noteq> x) (timers s)\<rparr>)"

text \<open>\<open>fs.unlink(p, cb)\<close> with a callback that swallows the error.\<close>

definition unlink :: "string \<Rightarrow> state \<Rightarrow> state" where
  "unlink p s = s\<lparr>fs := fs s - {p}\<rparr>"

definition removeKey :: "string \<Rightarrow> state \<Rightarrow> state" where
  "removeKey key s =
     (case keys_get s key of
        None \<Rightarrow> s
      | Some (r, i) \<Rightarrow>
          (let s1 = clearTimeout (timer i) s;
               s2 = (if files i \<noteq> []
                     then heap_upd r (\<lambda>i. i\<lparr>files := []\<rparr>) (fold unlink (map path (files i)) s1)
                     else s1)
           in s2\<lparr>keys := AList.delete key (keys s2)\<rparr>))"

definition expireKey :: "string \<Rightarrow> state \<Rightarrow> nat \<times> state" where
  "expireKey key s =
     (let info = keys_get s key;
          (tm, s1) = setTimeout (RemoveKey key) (expireDelay * 1000) s
      in case info of
           None \<Rightarrow> (tm, s1)
         | Some (r, i) \<Rightarrow>
             (tm, heap_upd r (\<lambda>i. i\<lparr>timer := Some tm, alive := now s1\<rparr>) (clearTimeout (timer i) s1)))"

section \<open>Replies\<close>

datatype body =
    Plain string
  | ErrorJson string
  | StatusJson nat "string list" "string list"

text \<open>
  What a handler leaves in \<open>ctx\<close>: a status, whether \<open>Connection: close\<close> was set, and a
  body; or it hands the request on (\<open>next()\<close>), throws, or calls \<open>sendfile\<close> for a path
  (with the attachment name, when \<open>ctx.attachment\<close> was called).
\<close>

datatype reply =
    Reply nat bool body
  | Fallthrough
  | Thrown nat string
  | SendFile string "string option"

definition flash :: "string \<Rightarrow> bool \<Rightarrow> reply" where
  "flash message success = Reply (if success then 200 else 400) (\<not> success) (Plain message)"

section \<open>Creating a session\<close>

text \<open>
  The \<open>do ... while\<close> loop of \<open>/generate\<close>.  \<open>rnd n\<close> is the number drawn by the \<open>n\<close>-th call
  of \<open>randomKey\<close> in this request; the loop draws once per iteration, so the index is
  \<open>attempts\<close>.  The result is the key with the final value of \<open>attempts\<close>, or \<open>None\<close> when
  the handler gave up.
\<close>

function pick_key :: "(string \<times> nat) list \<Rightarrow> (nat \<Rightarrow> nat) \<Rightarrow> nat \<Rightarrow> (string \<times> nat) option" where
  "pick_key ks rnd attempts =
     (let key = randomKey (rnd attempts) in
      if attempts > length ks then None
      else if map_of ks key \<noteq> None then pick_key ks rnd (attempts + 1)
      else Some (key, attempts + 1))"
  by pat_completeness auto
termination
  by (relation "measure (\<lambda>(ks, rnd, attempts). length ks + 1 - attempts)") auto

declare pick_key.simps [simp del]

definition generate :: "string \<Rightarrow> (nat \<Rightarrow> nat) \<Rightarrow> state \<Rightarrow> reply \<times> state" where
  "generate ua rnd s =
     (case pick_key (keys s) rnd 0 of
        None \<Rightarrow> (Reply 200 False (Plain ''error''), s)
      | Some (key, attempts) \<Rightarrow>
          (let r = next_ref s;
               i = \<lparr>created = now s, agent = ua, files = [], urls = [], timer = None, alive = now s\<rparr>;
               s1 = s\<lparr>keys := AList.update key r (keys s),
                      heap := AList.update r i (heap s),
                      next_ref := r + 1\<rparr>;
               (tm, s2) = expireKey key s1;
               (hc, s3) = setTimeout (HardCap key r) (maxExpireDuration * 1000) s2
           in (Reply 200 False (Plain key), s3)))"

section \<open>Status, download and deletion\<close>

text \<open>
  Functions of libraries the program calls, taken as parameters: \<open>sanitize-filename\<close>,
  \<open>transliteration\<close>, the re-decoding \<open>Buffer.from(x, "latin1").toString("utf8")\<close>, and
  \<open>decodeURIComponent\<close>, which throws on a malformed escape (\<open>None\<close>).
\<close>

record lib =
  sanitize :: "string \<Rightarrow> string"
  transliterate :: "string \<Rightarrow> string"
  latin1_to_utf8 :: "string \<Rightarrow> string"
  decodeURIComponent :: "string \<Rightarrow> string option"

definition get_status :: "string \<Rightarrow> string \<Rightarrow> state \<Rightarrow> reply \<times> state" where
  "get_status key_param ua s =
     (let key = toUpperCase key_param in
      case keys_get s key of
        None \<Rightarrow> (Reply 404 False (ErrorJson ''Unknown key''), s)
      | Some (r, i) \<Rightarrow>
          if agent i \<noteq> ua then (Reply 403 False (ErrorJson ''Forbidden''), s)
          else (let (tm, s1) = expireKey key s in
                case map_of (heap s1) r of
                  None \<Rightarrow> (Reply 200 False (StatusJson (alive i) (map name (files i)) (urls i)), s1)
                | Some j \<Rightarrow> (Reply 200 False (StatusJson (alive j) (map name (files j)) (urls j)), s1)))"

text \<open>
  \<open>qkey\<close> is \<open>ctx.query.key\<close> (absent: \<open>None\<close>); the empty string is falsy.
\<close>

definition downloadFile :: "lib \<Rightarrow> string option \<Rightarrow> string \<Rightarrow> string \<Rightarrow> state \<Rightarrow> reply \<times> state" where
  "downloadFile l qkey filename_param ua s =
     (case (case qkey of None \<Rightarrow> None | Some q \<Rightarrow> if q = [] then None else Some (toUpperCase q)) of
        None \<Rightarrow> (Fallthrough, s)
      | Some key \<Rightarrow>
          (case decodeURIComponent l filename_param of
             None \<Rightarrow> (Thrown 500 ''URIError'', s)
           | Some filename \<Rightarrow>
               (case keys_get s key of
                  None \<Rightarrow> (Fallthrough, s)
                | Some (r, i) \<Rightarrow>
                    (case find (\<lambda>f. name f = filename) (files i) of
                       None \<Rightarrow> (Fallthrough, s)
                     | Some file \<Rightarrow>
                         if agent i \<noteq> ua then (Reply 403 False (Plain ''Forbidden''), s)
                         else (let (tm, s1) = expireKey key s in
                               (SendFile (path file)
                                  (if str_includes (agent i) ''Kindle'' then Some (name file) else None),
                                s1))))))"

text \<open>
  \<open>findIndex\<close> and \<open>splice(fileIndex, 1)\<close>: the first record with the name is taken out.
\<close>

fun remove_first :: "('a \<Rightarrow> bool) \<Rightarrow> 'a list \<Rightarrow> 'a list" where
  "remove_first P [] = []"
| "remove_first P (x # xs) = (if P x then xs else x # remove_first P xs)"

definition delete_file :: "lib \<Rightarrow> string \<Rightarrow> string \<Rightarrow> state \<Rightarrow> reply \<times> state" where
  "delete_file l key_param filename_param s =
     (let key = toUpperCase key_param in
      case decodeURIComponent l filename_param of
        None \<Rightarrow> (Thrown 500 ''URIError'', s)
      | Some filename \<Rightarrow>
          (case keys_get s key of
             None \<Rightarrow> (Thrown 400 (''Unknown key: '' @ key), s)
           | Some (r, i) \<Rightarrow>
               (case find (\<lambda>f. name f = filename) (files i) of
                  None \<Rightarrow> (Reply 200 False (Plain ''ok''), s)
                | Some file \<Rightarrow>
                    (Reply 200 False (Plain ''ok''),
                     heap_upd r (\<lambda>i. i\<lparr>files := remove_first (\<lambda>f. name f = filename) (files i)\<rparr>)
                       (unlink (path file) s)))))"

section \<open>Upload\<close>

text \<open>
  What the program cannot see of an uploaded file is part of the input: \<open>sniffed\<close> is
  the result of \<open>FileType.fromFile\<close> on the stored bytes (\<open>None\<close>: no known signature),
  and \<open>converter\<close> is how the external process would end if it were started on the file
  (a launch error, or an exit code, \<open>None\<close> when a signal ended it), what it printed and
  which files it wrote.  \<open>unique\<close> is the suffix \<open>diskStorage.filename\<close> draws.
\<close>

datatype ended = SpawnError string | Closed "int option"

record proc =
  ended :: ended
  printed :: string
  written :: "string list"

record mfile =
  originalname :: string
  mimetype :: string
  unique :: string
  msize :: nat
  sniffed :: "string option"
  converter :: proc

text \<open>\<open>file.path\<close>: destination \<open>uploads\<close>, field name \<open>files\<close>.\<close>

definition mpath :: "mfile \<Rightarrow> string" where
  "mpath f = ''uploads/'' @ ''files'' @ ''-'' @ unique f @ toLowerCase (extname (originalname f))"

text \<open>
  The request: the header \<open>x-upload-key\<close>, \<open>ctx.query.key\<close> and the body field \<open>key\<close>
  (each \<open>None\<close> unless it is a string), the body field \<open>url\<close>, the truthiness of the body
  fields \<open>transliteration\<close>, \<open>kindlegen\<close> and \<open>kepubify\<close>, and the file parts in order.
\<close>

record request =
  x_upload_key :: "string option"
  query_key :: "string option"
  body_key :: "string option"
  body_url :: "string option"
  transliteration :: bool
  kindlegen :: bool
  kepubify :: bool
  parts :: "mfile list"

definition trimmed_upper :: "string option \<Rightarrow> string option" where
  "trimmed_upper v =
     (case v of None \<Rightarrow> None | Some x \<Rightarrow> if trim x = [] then None else Some (toUpperCase (trim x)))"

definition getKeyFromRequest :: "request \<Rightarrow> string option" where
  "getKeyFromRequest req =
     (case trimmed_upper (x_upload_key req) of
        Some k \<Rightarrow> Some k
      | None \<Rightarrow>
          (case trimmed_upper (query_key req) of
             Some k \<Rightarrow> Some k
           | None \<Rightarrow> trimmed_upper (body_key req)))"

text \<open>
  The \<open>fileFilter\<close> of multer: the error message, or the file with its name sanitized.
\<close>

definition fileFilter :: "lib \<Rightarrow> request \<Rightarrow> mfile \<Rightarrow> state \<Rightarrow> string + mfile" where
  "fileFilter l req file0 s =
     (let file = file0\<lparr>originalname := sanitize l (latin1_to_utf8 l (originalname file0))\<rparr> in
      case trimmed_upper (x_upload_key req) of
        None \<Rightarrow> Inl ''Missing key. Send x-upload-key header (recommended).''
      | Some key \<Rightarrow>
          if map_of (keys s) key = None then Inl (''Unknown key '' @ key)
          else (let fileExt = drop 1 (toLowerCase (extname (originalname file))) in
                if (mimetype file \<notin> set allowedTypes \<and> mimetype file \<noteq> ''application/octet-stream'')
                   \<or> fileExt \<notin> set allowedExtensions
                then Inl (''Invalid filetype: '' @ originalname file @ '' ('' @ mimetype file @ '')'')
                else Inr file))"

text \<open>
  \<open>upload.array("files", 10)\<close>: multer filters each part before it stores it; when the
  filter fails it removes the files it has stored for the request and throws.  (Its own
  limits on number and size of the parts end in the same \<open>catch\<close>; they are not modelled.)
\<close>

fun multer_array :: "lib \<Rightarrow> request \<Rightarrow> mfile list \<Rightarrow> mfile list \<Rightarrow> state \<Rightarrow> (string + mfile list) \<times> state" where
  "multer_array l req [] stored s = (Inr stored, s)"
| "multer_array l req (p # ps) stored s =
     (case fileFilter l req p s of
        Inl err \<Rightarrow> (Inl err, fold unlink (map mpath stored) s)
      | Inr file \<Rightarrow> multer_array l req ps (stored @ [file]) (s\<lparr>fs := insert (mpath file) (fs s)\<rparr>))"

definition doTransliterate :: "lib \<Rightarrow> string \<Rightarrow> string" where
  "doTransliterate l filename =
     (let parts = split_on (CHR ''.'') filename;
          ext = ''.'' @ last parts;
          nm = join ''.'' (butlast parts)
      in transliterate l nm @ ext)"

text \<open>The character class \<open>[^\.\w\-"'\(\)]\<close> and the replacement of its matches.\<close>

definition is_word_char :: "char \<Rightarrow> bool" where
  "is_word_char c =
     (let n = (of_char c :: nat) in
      (48 \<le> n \<and> n \<le> 57) \<or> (65 \<le> n \<and> n \<le> 90) \<or> (97 \<le> n \<and> n \<le> 122) \<or> n = 95)"

definition kindle_keep :: "char \<Rightarrow> bool" where
  "kindle_keep c =
     (c = CHR ''.'' \<or> is_word_char c \<or> c = CHR ''-'' \<or> c = CHR 0x22 \<or> c = CHR 0x27
      \<or> c = CHR ''('' \<or> c = CHR '')'')"

definition kindle_replace :: "string \<Rightarrow> string" where
  "kindle_replace filename = map (\<lambda>c. if kindle_keep c then c else CHR ''_'') filename"

definition show_code :: "int option \<Rightarrow> string" where
  "show_code code = (case code of None \<Rightarrow> ''null'' | Some c \<Rightarrow> string_of_int c)"

text \<open>
  The two promises of \<open>processFile\<close>: the \<open>error\<close> and \<open>close\<close> handlers of the spawned
  process.  The result is the rejection message or \<open>outname\<close>.
\<close>

definition convert_kindlegen :: "mfile \<Rightarrow> state \<Rightarrow> (string + string) \<times> state" where
  "convert_kindlegen file s =
     (let outname = replace_end_ci ''.epub'' ''.mobi'' (mpath file);
          mobi8 = replace_end_ci ''.epub'' ''.mobi8'' (mpath file)
      in case ended (converter file) of
           SpawnError err \<Rightarrow> (Inl (''kindlegen error: '' @ err), unlink mobi8 (unlink (mpath file) s))
         | Closed code \<Rightarrow>
             (let s1 = unlink mobi8 (unlink (mpath file)
                         (s\<lparr>fs := fs s \<union> set (written (converter file))\<rparr>))
              in if code \<noteq> Some 0 \<and> code \<noteq> Some 1
                 then (Inl (''kindlegen error code: '' @ show_code code @ [CHR 0x0A]
                            @ printed (converter file)), s1)
                 else (Inr outname, s1)))"

definition convert_kepubify :: "mfile \<Rightarrow> state \<Rightarrow> (string + string) \<times> state" where
  "convert_kepubify file s =
     (let outname = replace_end_ci ''.epub'' ''.kepub.epub'' (mpath file)
      in case ended (converter file) of
           SpawnError err \<Rightarrow> (Inl (''kepubify error: '' @ err), unlink (mpath file) s)
         | Closed code \<Rightarrow>
             (let s1 = unlink (mpath file) (s\<lparr>fs := fs s \<union> set (written (converter file))\<rparr>)
              in if code \<noteq> Some 0
                 then (Inl (''Kepubify error code: '' @ show_code code @ [CHR 0x0A]
                            @ printed (converter file)), s1)
                 else (Inr outname, s1)))"

text \<open>
  \<open>processFile(file, info, ctx)\<close>; \<open>ua\<close> is \<open>info.agent\<close>.  \<open>transliterated_name\<close> is
  the variable \<open>filename\<close> after the transliteration step, \<open>display_name\<close> after the
  Kindle rewriting that follows;
  \<open>effective_mimetype\<close> is the variable \<open>mimetype\<close> after the two assignments that follow
  the sniffing.  A thrown error is \<open>Inl\<close> of its message.
\<close>

definition transliterated_name :: "lib \<Rightarrow> request \<Rightarrow> mfile \<Rightarrow> string" where
  "transliterated_name l req file =
     (let filename = originalname file in
      if transliteration req then sanitize l (doTransliterate l filename) else filename)"

definition display_name :: "lib \<Rightarrow> request \<Rightarrow> string \<Rightarrow> mfile \<Rightarrow> string" where
  "display_name l req ua file =
     (let filename = transliterated_name l req file in
      if str_includes ua ''Kindle'' then kindle_replace filename else filename)"

definition effective_mimetype :: "mfile \<Rightarrow> string" where
  "effective_mimetype file =
     (let mimetype1 = (case sniffed file of
                         None \<Rightarrow> mimetype file
                       | Some m \<Rightarrow> if mimetype file = ''application/octet-stream'' then m
                                  else mimetype file)
      in if mimetype1 = ''application/epub'' then TYPE_EPUB else mimetype1)"

definition processFile :: "lib \<Rightarrow> request \<Rightarrow> string \<Rightarrow> mfile \<Rightarrow> state \<Rightarrow> (string + fileRecord) \<times> state" where
  "processFile l req ua file s =
     (let filename = display_name l req ua file;
          ftype = sniffed file;
          mimetype2 = effective_mimetype file
      in if (case ftype of None \<Rightarrow> True | Some m \<Rightarrow> m \<notin> set allowedTypes)
            \<and> mimetype2 \<notin> set allowedTypes
         then (Inl (''Uploaded file is of an invalid type: '' @ originalname file @ '' (''
                    @ (case ftype of None \<Rightarrow> ''unknown mimetype'' | Some m \<Rightarrow> m) @ '')''), s)
         else if mimetype2 = TYPE_EPUB \<and> str_includes ua ''Kindle'' \<and> kindlegen req
         then (case convert_kindlegen file s of
                 (Inl err, s1) \<Rightarrow> (Inl err, s1)
               | (Inr outname, s1) \<Rightarrow>
                   (Inr \<lparr>name = replace_end_ci ''.epub'' ''.mobi''
                                  (replace_end_ci ''.kepub.epub'' ''.epub'' filename),
                         path = outname, uploaded = now s1, conversion = Some ''kindlegen''\<rparr>, s1))
         else if mimetype2 = TYPE_EPUB \<and> str_includes ua ''Kobo'' \<and> kepubify req
         then (case convert_kepubify file s of
                 (Inl err, s1) \<Rightarrow> (Inl err, s1)
               | (Inr outname, s1) \<Rightarrow>
                   (Inr \<lparr>name = replace_end_ci ''.epub'' ''.kepub.epub''
                                  (replace_end_ci ''.kepub.epub'' ''.epub'' filename),
                         path = outname, uploaded = now s1, conversion = Some ''kepubify''\<rparr>, s1))
         else (Inr \<lparr>name = replace_end_ci ''.pdf'' ''.pdf'' (replace_end_ci ''.epub'' ''.epub'' filename),
                    path = mpath file, uploaded = now s, conversion = None\<rparr>, s))"

text \<open>The check mark and the ballot cross of the messages, as UTF-8.\<close>

definition check_mark :: string where
  "check_mark = [CHR 0xE2, CHR 0x9C, CHR 0x93]"

definition ballot_x :: string where
  "ballot_x = [CHR 0xE2, CHR 0x9C, CHR 0x97]"

text \<open>
  The body of the loop over \<open>ctx.request.files\<close>, for the captured object \<open>info\<close> (the
  reference \<open>r\<close>): it carries \<open>messages\<close> and \<open>processedFiles\<close>.
\<close>

definition upload_one ::
  "lib \<Rightarrow> request \<Rightarrow> nat \<Rightarrow> mfile \<Rightarrow> string list \<times> fileRecord list \<times> state
     \<Rightarrow> string list \<times> fileRecord list \<times> state" where
  "upload_one l req r file acc =
     (case acc of (messages, processedFiles, s) \<Rightarrow>
        if msize file = 0 then (messages, processedFiles, unlink (mpath file) s)
        else (case map_of (heap s) r of
                None \<Rightarrow> acc
              | Some i \<Rightarrow>
                  (case processFile l req (agent i) file s of
                     (Inr processedFile, s1) \<Rightarrow>
                       (messages @ [check_mark @ '' '' @ name processedFile
                                    @ (case conversion processedFile of
                                         None \<Rightarrow> []
                                       | Some c \<Rightarrow> '' (converted with '' @ c @ '')'')],
                        processedFiles @ [processedFile],
                        heap_upd r (\<lambda>i. i\<lparr>files := files i @ [processedFile]\<rparr>) s1)
                   | (Inl err, s1) \<Rightarrow>
                       (messages @ [ballot_x @ '' Error processing '' @ originalname file @ '': '' @ err],
                        processedFiles,
                        unlink (mpath file) s1))))"

text \<open>The handler of \<open>/upload\<close> after multer has returned the stored files.\<close>

definition upload_handler :: "lib \<Rightarrow> request \<Rightarrow> mfile list \<Rightarrow> state \<Rightarrow> reply \<times> state" where
  "upload_handler l req stored s =
     (case getKeyFromRequest req of
        None \<Rightarrow> (flash ''Missing key (send x-upload-key header).'' False,
                 fold unlink (map mpath stored) s)
      | Some key \<Rightarrow>
          (case map_of (keys s) key of
             None \<Rightarrow> (flash (''Unknown key '' @ key) False, fold unlink (map mpath stored) s)
           | Some r \<Rightarrow>
               (let (tm, s1) = expireKey key s;
                    url = (case body_url req of
                             None \<Rightarrow> None
                           | Some u \<Rightarrow> if u = [] then None else Some (trim u));
                    s2 = (case url of
                            None \<Rightarrow> s1
                          | Some u \<Rightarrow>
                              heap_upd r (\<lambda>i. if u \<noteq> [] \<and> u \<notin> set (urls i)
                                              then i\<lparr>urls := urls i @ [u]\<rparr> else i) s1);
                    (messages0, processedFiles, s3) = fold (upload_one l req r) stored ([], [], s2);
                    messages = messages0 @ (case url of
                                              None \<Rightarrow> []
                                            | Some u \<Rightarrow> if u = [] then []
                                                       else [check_mark @ '' Added url: '' @ u])
                in if messages = [] then (flash ''No file or url selected'' False, s3)
                   else (flash ((if processedFiles \<noteq> []
                                 then ''Upload successful! '' @ string_of_nat (length processedFiles)
                                      @ '' file(s) received:<br/>''
                                 else []) @ join ''<br/>'' messages) True, s3))))"

definition post_upload :: "lib \<Rightarrow> request \<Rightarrow> state \<Rightarrow> reply \<times> state" where
  "post_upload l req s =
     (case multer_array l req (parts req) [] s of
        (Inl err, s1) \<Rightarrow> (flash err False, s1)
      | (Inr stored, s1) \<Rightarrow> upload_handler l req stored s1)"

section \<open>Timers and the event loop\<close>

definition run_callback :: "callback \<Rightarrow> state \<Rightarrow> state" where
  "run_callback cb s =
     (case cb of
        RemoveKey key \<Rightarrow> removeKey key s
      | HardCap key r \<Rightarrow> if map_of (keys s) key = Some r then removeKey key s else s)"

text \<open>
  A pending timeout fires once its time has come: it leaves the pending list and its
  callback runs.  The clock moves on only up to the earliest pending timeout, so that no
  timeout fires late.
\<close>

definition fire :: "nat \<Rightarrow> state \<Rightarrow> state" where
  "fire h s =
     (case find (\<lambda>t. handle t = h) (timers s) of
        None \<Rightarrow> s
      | Some t \<Rightarrow>
          if due t \<le> now s
          then run_callback (callback t) (s\<lparr>timers := filter (\<lambda>x. handle x \<noteq> h) (timers s)\<rparr>)
          else s)"

definition advance :: "nat \<Rightarrow> state \<Rightarrow> state" where
  "advance t s = (if now s \<le> t \<and> (\<forall>x \<in> set (timers s). t \<le> due x) then s\<lparr>now := t\<rparr> else s)"

text \<open>
  The requests and the timer events.  \<open>UploadFile\<close> is one turn of the upload loop for a
  captured \<open>info\<close> object, run later: an upload waits for the sniffer and the converter
  between its files, and other events can come in between.
\<close>

datatype event =
    Generate string "nat \<Rightarrow> nat"
  | Status string string
  | Download "string option" string string
  | DeleteFile string string
  | Upload request
  | UploadFile request nat mfile
  | Fire nat
  | Advance nat

definition step :: "lib \<Rightarrow> event \<Rightarrow> state \<Rightarrow> state" where
  "step l e s =
     (case e of
        Generate ua rnd \<Rightarrow> snd (generate ua rnd s)
      | Status key ua \<Rightarrow> snd (get_status key ua s)
      | Download qkey filename ua \<Rightarrow> snd (downloadFile l qkey filename ua s)
      | DeleteFile key filename \<Rightarrow> snd (delete_file l key filename s)
      | Upload req \<Rightarrow> snd (post_upload l req s)
      | UploadFile req r file \<Rightarrow> snd (snd (upload_one l req r file ([], [], s)))
      | Fire h \<Rightarrow> fire h s
      | Advance t \<Rightarrow> advance t s)"

definition run :: "lib \<Rightarrow> event list \<Rightarrow> state \<Rightarrow> state" where
  "run l evs s = fold (step l) evs s"

section \<open>Invariant of the registry and its timers\<close>

text \<open>
  \<open>reg\<close> and \<open>obj\<close> read the registry and the store as maps.  The invariant says that
  keys, references and timer handles are unique, that every pending timeout is still in
  the future of the clock, that every registered session has its renewable timeout (the
  handle it stores) and its hard-cap timeout pending, and that every pending renewable
  timeout belongs to the session registered under its key.
\<close>

definition reg :: "state \<Rightarrow> string \<Rightarrow> nat option" where
  "reg s k = map_of (keys s) k"

definition obj :: "state \<Rightarrow> nat \<Rightarrow> info option" where
  "obj s r = map_of (heap s) r"

definition inv :: "state \<Rightarrow> bool" where
  "inv s \<longleftrightarrow>
     distinct (map fst (keys s)) \<and>
     distinct (map handle (timers s)) \<and>
     (\<forall>t \<in> set (timers s). handle t < next_handle s \<and> now s \<le> due t) \<and>
     (\<forall>k r. reg s k = Some r \<longrightarrow> r < next_ref s) \<and>
     (\<forall>k k' r. reg s k = Some r \<longrightarrow> reg s k' = Some r \<longrightarrow> k = k') \<and>
     (\<forall>k r. reg s k = Some r \<longrightarrow>
        (\<exists>i. obj s r = Some i \<and>
           (\<exists>t \<in> set (timers s). callback t = RemoveKey k \<and> timer i = Some (handle t)) \<and>
           (\<exists>t \<in> set (timers s). callback t = HardCap k r
                \<and> due t = created i + maxExpireDuration * 1000))) \<and>
     (\<forall>t \<in> set (timers s). \<forall>k. callback t = RemoveKey k \<longrightarrow>
        (\<exists>r i. reg s k = Some r \<and> obj s r = Some i \<and> timer i = Some (handle t)))"

text \<open>
  \<open>frame s s'\<close>: only files, urls and the last-activity time of objects, and the file
  system, differ between the two states.
\<close>

definition core :: "info \<Rightarrow> nat \<times> nat option" where
  "core i = (created i, timer i)"

definition frame :: "state \<Rightarrow> state \<Rightarrow> bool" where
  "frame s s' \<longleftrightarrow>
     keys s' = keys s \<and> timers s' = timers s \<and> now s' = now s \<and>
     next_handle s' = next_handle s \<and> next_ref s' = next_ref s \<and>
     (\<forall>r. map_option core (obj s' r) = map_option core (obj s r))"

section \<open>Concrete inputs\<close>

text \<open>Library functions that change nothing, for the examples.\<close>

definition id_lib :: lib where
  "id_lib = \<lparr>sanitize = (\<lambda>x. x), transliterate = (\<lambda>x. x), latin1_to_utf8 = (\<lambda>x. x),
              decodeURIComponent = Some\<rparr>"

definition touched_events :: "event list" where
  "touched_events =
     [Generate ''Kobo'' (\<lambda>_. 0),
      Advance 500000, Status ''2222'' ''Kobo'',
      Advance 1000000, Status ''2222'' ''Kobo'',
      Advance 1500000, Status ''2222'' ''Kobo'',
      Advance 2000000, Status ''2222'' ''Kobo'',
      Advance 2500000, Status ''2222'' ''Kobo'',
      Advance 3000000, Status ''2222'' ''Kobo'',
      Advance 3500000, Status ''2222'' ''Kobo'',
      Advance 3600000]"

definition touched_state :: state where
  "touched_state =
     \<lparr>keys = [(''2222'', 0)],
      heap = [(0, \<lparr>created = 0, agent = ''Kobo'', files = [], urls = [], timer = Some 8,
                    alive = 3500000\<rparr>)],
      timers = [\<lparr>handle = 1, due = 3600000, callback = HardCap ''2222'' 0\<rparr>,
                \<lparr>handle = 8, due = 4100000, callback = RemoveKey ''2222''\<rparr>],
      fs = {}, now = 3600000, next_handle = 9, next_ref = 1\<rparr>"

definition expired_events :: "event list" where
  "expired_events = [Generate ''Kindle'' (\<lambda>_. 0), Advance 600000, Fire 0]"

definition reissued_events :: "event list" where
  "reissued_events =
     expired_events @
     [Generate ''Kobo'' (\<lambda>_. 0),
      Advance 1200000, Status ''2222'' ''Kobo'',
      Advance 1800000, Status ''2222'' ''Kobo'',
      Advance 2400000, Status ''2222'' ''Kobo'',
      Advance 3000000, Status ''2222'' ''Kobo'',
      Advance 3600000]"

definition reissued_state :: state where
  "reissued_state =
     \<lparr>keys = [(''2222'', 1)],
      heap = [(0, \<lparr>created = 0, agent = ''Kindle'', files = [], urls = [], timer = Some 0,
                    alive = 0\<rparr>),
              (1, \<lparr>created = 600000, agent = ''Kobo'', files = [], urls = [], timer = Some 7,
                    alive = 3000000\<rparr>)],
      timers = [\<lparr>handle = 1, due = 3600000, callback = HardCap ''2222'' 0\<rparr>,
                \<lparr>handle = 3, due = 4200000, callback = HardCap ''2222'' 1\<rparr>,
                \<lparr>handle = 7, due = 3600000, callback = RemoveKey ''2222''\<rparr>],
      fs = {}, now = 3600000, next_handle = 8, next_ref = 2\<rparr>"

definition started_state :: state where
  "started_state =
     \<lparr>keys = [(''2222'', 0)],
      heap = [(0, \<lparr>created = 0, agent = ''Kindle'', files = [], urls = [], timer = Some 0,
                    alive = 0\<rparr>)],
      timers = [\<lparr>handle = 0, due = 600000, callback = RemoveKey ''2222''\<rparr>,
                \<lparr>handle = 1, due = 3600000, callback = HardCap ''2222'' 0\<rparr>],
      fs = {}, now = 600000, next_handle = 2, next_ref = 1\<rparr>"

definition pdf_part :: mfile where
  "pdf_part =
     \<lparr>originalname = ''book.pdf'', mimetype = ''application/pdf'', unique = ''1-1'', msize = 10,
      sniffed = Some ''application/pdf'',
      converter = \<lparr>ended = Closed (Some 0), printed = [], written = []\<rparr>\<rparr>"

definition pdf_request :: request where
  "pdf_request =
     \<lparr>x_upload_key = Some ''2222'', query_key = None, body_key = None, body_url = None,
      transliteration = False, kindlegen = False, kepubify = False, parts = [pdf_part]\<rparr>"

definition stored_state :: state where
  "stored_state =
     \<lparr>keys = [(''2222'', 0)],
      heap = [(0, \<lparr>created = 0, agent = ''Kobo'',
                    files = [\<lparr>name = ''book.pdf'', path = ''uploads/files-1-1.pdf'', uploaded = 0,
                               conversion = None\<rparr>],
                    urls = [], timer = Some 2, alive = 0\<rparr>)],
      timers = [\<lparr>handle = 1, due = 3600000, callback = HardCap ''2222'' 0\<rparr>,
                \<lparr>handle = 2, due = 600000, callback = RemoveKey ''2222''\<rparr>],
      fs = {''uploads/files-1-1.pdf''}, now = 0, next_handle = 3, next_ref = 1\<rparr>"

definition odd_name_part :: mfile where
  "odd_name_part = pdf_part\<lparr>originalname := ''my book#1.pdf''\<rparr>"








definition epub_part :: mfile where
  "epub_part =
     \<lparr>originalname = ''book.epub'', mimetype = ''application/epub+zip'', unique = ''4-4'',
      msize = 7, sniffed = Some ''application/epub+zip'',
      converter = \<lparr>ended = Closed (Some 1), printed = ''warning'',
                    written = [''uploads/files-4-4.mobi'', ''uploads/files-4-4.mobi8'']\<rparr>\<rparr>"

definition convert_request :: request where
  "convert_request = pdf_request\<lparr>kindlegen := True, kepubify := True, parts := [epub_part]\<rparr>"

section \<open>Words of the claims\<close>

text \<open>
  The characters the Kindle rewriting is said to keep: word characters (letters, digits,
  underscore), dot, hyphen, parentheses, double and single quote.
\<close>

definition kindle_allowed :: "char set" where
  "kindle_allowed =
     set (''abcdefghijklmnopqrstuvwxyz'' @ ''ABCDEFGHIJKLMNOPQRSTUVWXYZ'' @ ''0123456789'' @ ''_''
          @ ''.-()'' @ [CHR 0x22, CHR 0x27])"


section \<open>Lemmas\<close>

lemma heap_upd_fields [simp]:
  "keys (heap_upd r f s) = keys s" "timers (heap_upd r f s) = timers s"
  "fs (heap_upd r f s) = fs s" "now (heap_upd r f s) = now s"
  "next_handle (heap_upd r f s) = next_handle s" "next_ref (heap_upd r f s) = next_ref s"
  by (simp_all add: heap_upd_def split: option.splits)

lemma obj_heap_upd:
  "obj (heap_upd r f s) r' = (if r' = r then map_option f (obj s r) else obj s r')"
  by (simp add: heap_upd_def obj_def update_conv' split: option.splits)

lemma reg_heap_upd [simp]: "reg (heap_upd r f s) = reg s"
  by (simp add: reg_def fun_eq_iff)

lemma obj_updates [simp]:
  "obj (s\<lparr>timers := a\<rparr>) = obj s" "obj (s\<lparr>next_handle := b\<rparr>) = obj s"
  "obj (s\<lparr>fs := c\<rparr>) = obj s" "obj (s\<lparr>now := d\<rparr>) = obj s"
  "obj (s\<lparr>keys := e\<rparr>) = obj s" "obj (s\<lparr>next_ref := f\<rparr>) = obj s"
  by (simp_all add: obj_def fun_eq_iff)

lemma reg_updates [simp]:
  "reg (s\<lparr>timers := a\<rparr>) = reg s" "reg (s\<lparr>next_handle := b\<rparr>) = reg s"
  "reg (s\<lparr>fs := c\<rparr>) = reg s" "reg (s\<lparr>now := d\<rparr>) = reg s"
  "reg (s\<lparr>heap := g\<rparr>) = reg s" "reg (s\<lparr>next_ref := f\<rparr>) = reg s"
  by (simp_all add: reg_def fun_eq_iff)

lemma obj_clearTimeout [simp]: "obj (clearTimeout h s) = obj s"
  by (simp add: clearTimeout_def split: option.splits)

lemma reg_clearTimeout [simp]: "reg (clearTimeout h s) = reg s"
  by (simp add: clearTimeout_def split: option.splits)

lemma clearTimeout_fields [simp]:
  "keys (clearTimeout h s) = keys s" "heap (clearTimeout h s) = heap s"
  "fs (clearTimeout h s) = fs s" "now (clearTimeout h s) = now s"
  "next_handle (clearTimeout h s) = next_handle s" "next_ref (clearTimeout h s) = next_ref s"
  by (simp_all add: clearTimeout_def split: option.splits)

lemma set_timers_clearTimeout:
  "set (timers (clearTimeout h s)) = {t \<in> set (timers s). h \<noteq> Some (handle t)}"
  by (auto simp: clearTimeout_def split: option.splits)

lemma distinct_timers_clearTimeout:
  "distinct (map handle (timers s)) \<Longrightarrow> distinct (map handle (timers (clearTimeout h s)))"
  by (simp add: clearTimeout_def distinct_map_filter split: option.splits)

lemma keys_get_eq:
  "keys_get s k = (case reg s k of None \<Rightarrow> None | Some r \<Rightarrow> map_option (Pair r) (obj s r))"
  by (simp add: keys_get_def reg_def obj_def split: option.splits)

lemma expireKey_live:
  assumes "reg s k = Some r" "obj s r = Some i"
  shows "snd (expireKey k s) =
     heap_upd r (\<lambda>i. i\<lparr>timer := Some (next_handle s), alive := now s\<rparr>)
       (clearTimeout (timer i)
          (s\<lparr>timers := timers s @ [\<lparr>handle = next_handle s, due = now s + expireDelay * 1000, callback = RemoveKey k\<rparr>],
             next_handle := next_handle s + 1\<rparr>))"
  using assms by (simp add: expireKey_def keys_get_eq setTimeout_def)


lemma invI:
  assumes "distinct (map fst (keys s))" "distinct (map handle (timers s))"
    "\<And>t. t \<in> set (timers s) \<Longrightarrow> handle t < next_handle s \<and> now s \<le> due t"
    "\<And>k r. reg s k = Some r \<Longrightarrow> r < next_ref s"
    "\<And>k k' r. reg s k = Some r \<Longrightarrow> reg s k' = Some r \<Longrightarrow> k = k'"
    "\<And>k r. reg s k = Some r \<Longrightarrow>
        (\<exists>i. obj s r = Some i \<and>
           (\<exists>t \<in> set (timers s). callback t = RemoveKey k \<and> timer i = Some (handle t)) \<and>
           (\<exists>t \<in> set (timers s). callback t = HardCap k r
                \<and> due t = created i + maxExpireDuration * 1000))"
    "\<And>t k. t \<in> set (timers s) \<Longrightarrow> callback t = RemoveKey k \<Longrightarrow>
        (\<exists>r i. reg s k = Some r \<and> obj s r = Some i \<and> timer i = Some (handle t))"
  shows "inv s"
  unfolding inv_def using assms by blast

lemma inv_distinct_keys: "inv s \<Longrightarrow> distinct (map fst (keys s))"
  by (simp add: inv_def)

lemma inv_distinct_handles: "inv s \<Longrightarrow> distinct (map handle (timers s))"
  by (simp add: inv_def)

lemma inv_handle_eq: "inv s \<Longrightarrow> t \<in> set (timers s) \<Longrightarrow> t' \<in> set (timers s) \<Longrightarrow> handle t = handle t' \<Longrightarrow> t = t'"
  by (meson inv_distinct_handles distinct_map inj_onD)

lemma inv_timer: "inv s \<Longrightarrow> t \<in> set (timers s) \<Longrightarrow> handle t < next_handle s \<and> now s \<le> due t"
  by (simp add: inv_def)

lemma inv_ref: "inv s \<Longrightarrow> reg s k = Some r \<Longrightarrow> r < next_ref s"
  unfolding inv_def by blast

lemma inv_inj: "inv s \<Longrightarrow> reg s k = Some r \<Longrightarrow> reg s k' = Some r \<Longrightarrow> k = k'"
  unfolding inv_def by blast

lemma inv_live: "inv s \<Longrightarrow> reg s k = Some r \<Longrightarrow>
        (\<exists>i. obj s r = Some i \<and>
           (\<exists>t \<in> set (timers s). callback t = RemoveKey k \<and> timer i = Some (handle t)) \<and>
           (\<exists>t \<in> set (timers s). callback t = HardCap k r
                \<and> due t = created i + maxExpireDuration * 1000))"
  unfolding inv_def by blast

lemma inv_renew: "inv s \<Longrightarrow> t \<in> set (timers s) \<Longrightarrow> callback t = RemoveKey k \<Longrightarrow>
        (\<exists>r i. reg s k = Some r \<and> obj s r = Some i \<and> timer i = Some (handle t))"
  unfolding inv_def by blast

lemma inv_expireKey:
  assumes "inv s" "reg s k = Some r"
  shows "inv (snd (expireKey k s))"
proof -
  from inv_live[OF assms] obtain i t0 th where i: "obj s r = Some i"
    and t0: "t0 \<in> set (timers s)" "callback t0 = RemoveKey k" "timer i = Some (handle t0)"
    and th: "th \<in> set (timers s)" "callback th = HardCap k r" "due th = created i + maxExpireDuration * 1000"
    by blast
  define new where "new = \<lparr>handle = next_handle s, due = now s + expireDelay * 1000, callback = RemoveKey k\<rparr>"
  define s' where "s' = snd (expireKey k s)"
  have lt: "\<And>t. t \<in> set (timers s) \<Longrightarrow> handle t < next_handle s"
    using inv_timer[OF assms(1)] by blast
  have K: "keys s' = keys s" "now s' = now s" "next_ref s' = next_ref s" "next_handle s' = Suc (next_handle s)"
    unfolding s'_def expireKey_live[OF assms(2) i] by simp_all
  have R: "reg s' = reg s" using K by (simp add: reg_def fun_eq_iff)
  have T: "set (timers s') = {t \<in> set (timers s). handle t \<noteq> handle t0} \<union> {new}"
    unfolding s'_def expireKey_live[OF assms(2) i] using lt[OF t0(1)] t0
    by (auto simp: set_timers_clearTimeout new_def)
  have "next_handle s \<notin> handle ` set (timers s)" using lt by force
  then have "distinct (map handle (timers s @ [new]))"
    using inv_distinct_handles[OF assms(1)] by (simp add: new_def)
  then have "distinct (map handle (timers (clearTimeout (timer i)
          (s\<lparr>timers := timers s @ [new], next_handle := next_handle s + 1\<rparr>))))"
    by (intro distinct_timers_clearTimeout) simp
  then have D: "distinct (map handle (timers s'))"
    unfolding s'_def expireKey_live[OF assms(2) i] new_def by simp
  have O: "\<And>r'. obj s' r' = (if r' = r then Some (i\<lparr>timer := Some (next_handle s), alive := now s\<rparr>) else obj s r')"
    unfolding s'_def expireKey_live[OF assms(2) i] using i
    by (simp add: obj_heap_upd)
  have "inv s'"
  proof (rule invI)
    show "distinct (map fst (keys s'))" using inv_distinct_keys[OF assms(1)] K by simp
    show "distinct (map handle (timers s'))" by (rule D)
    show "handle t < next_handle s' \<and> now s' \<le> due t" if "t \<in> set (timers s')" for t
      using that inv_timer[OF assms(1), of t] unfolding T K by (auto simp: new_def)
    show "r < next_ref s'" if "reg s' k = Some r" for k r
      using that inv_ref[OF assms(1)] unfolding R K by blast
    show "k = k'" if "reg s' k = Some r" "reg s' k' = Some r" for k k' r
      using that inv_inj[OF assms(1)] unfolding R by blast
    show "\<exists>i. obj s' r' = Some i \<and>
           (\<exists>t \<in> set (timers s'). callback t = RemoveKey k' \<and> timer i = Some (handle t)) \<and>
           (\<exists>t \<in> set (timers s'). callback t = HardCap k' r'
                \<and> due t = created i + maxExpireDuration * 1000)" if "reg s' k' = Some r'" for k' r'
    proof (cases "k' = k")
      case True
      then have "r' = r" using that assms(2) R by simp
      have "th \<in> set (timers s')" using th t0 inv_handle_eq[OF assms(1) th(1) t0(1)] unfolding T by auto
      moreover have "new \<in> set (timers s')" unfolding T by simp
      moreover have "callback new = RemoveKey k" "next_handle s = handle new" by (simp_all add: new_def)
      ultimately show ?thesis using th True \<open>r' = r\<close> unfolding O by simp blast
    next
      case False
      from that have rk: "reg s k' = Some r'" unfolding R .
      then have "r' \<noteq> r" using inv_inj[OF assms(1), of k' r k] assms(2) False by blast
      from inv_live[OF assms(1) rk] obtain i' a b where
        "obj s r' = Some i'" "a \<in> set (timers s)" "callback a = RemoveKey k'" "timer i' = Some (handle a)"
        "b \<in> set (timers s)" "callback b = HardCap k' r'" "due b = created i' + maxExpireDuration * 1000"
        by blast
      moreover have "a \<noteq> t0" "b \<noteq> t0" using calculation t0 False by auto
      moreover have "handle a \<noteq> handle t0" "handle b \<noteq> handle t0"
        using inv_handle_eq[OF assms(1) _ t0(1)] calculation by blast+
      ultimately show ?thesis unfolding O T using \<open>r' \<noteq> r\<close> by auto
    qed
    show "\<exists>r i. reg s' k' = Some r \<and> obj s' r = Some i \<and> timer i = Some (handle t)"
      if "t \<in> set (timers s')" "callback t = RemoveKey k'" for t k'
    proof (cases "t = new")
      case True
      then show ?thesis using that assms(2) unfolding R O by (auto simp: new_def)
    next
      case False
      then have tt: "t \<in> set (timers s)" "handle t \<noteq> handle t0" using that unfolding T by auto
      from inv_renew[OF assms(1) tt(1) that(2)] obtain r' i' where
        x: "reg s k' = Some r'" "obj s r' = Some i'" "timer i' = Some (handle t)" by blast
      have "r' \<noteq> r" using x i t0 tt by auto
      then show ?thesis using x unfolding R O by auto
    qed
  qed
  then show ?thesis by (simp add: s'_def)
qed


lemma inv_sub:
  assumes "inv s"
    and dk: "distinct (map fst (keys s'))"
    and dh: "distinct (map handle (timers s'))"
    and sub: "\<And>k r. reg s' k = Some r \<Longrightarrow> reg s k = Some r"
    and eqs: "now s' = now s" "next_handle s' = next_handle s" "next_ref s' = next_ref s"
    and ts: "set (timers s') \<subseteq> set (timers s)"
    and gone: "\<And>t k r. t \<in> set (timers s) \<Longrightarrow> t \<notin> set (timers s') \<Longrightarrow> reg s' k = Some r
                 \<Longrightarrow> callback t \<noteq> RemoveKey k \<and> callback t \<noteq> HardCap k r"
    and kept: "\<And>t k. t \<in> set (timers s') \<Longrightarrow> callback t = RemoveKey k \<Longrightarrow> reg s' k \<noteq> None"
    and objs: "\<And>r. map_option core (obj s' r) = map_option core (obj s r)"
  shows "inv s'"
proof (rule invI)
  show "distinct (map fst (keys s'))" by (rule dk)
  show "distinct (map handle (timers s'))" by (rule dh)
  show "handle t < next_handle s' \<and> now s' \<le> due t" if "t \<in> set (timers s')" for t
    using that ts inv_timer[OF assms(1), of t] eqs by auto
  show "r < next_ref s'" if "reg s' k = Some r" for k r
    using sub[OF that] inv_ref[OF assms(1)] eqs by auto
  show "k = k'" if "reg s' k = Some r" "reg s' k' = Some r" for k k' r
    using sub[OF that(1)] sub[OF that(2)] inv_inj[OF assms(1)] by blast
  show "\<exists>i. obj s' r = Some i \<and>
           (\<exists>t \<in> set (timers s'). callback t = RemoveKey k \<and> timer i = Some (handle t)) \<and>
           (\<exists>t \<in> set (timers s'). callback t = HardCap k r
                \<and> due t = created i + maxExpireDuration * 1000)" if "reg s' k = Some r" for k r
  proof -
    from inv_live[OF assms(1) sub[OF that]] obtain i a b where
      i: "obj s r = Some i" and a: "a \<in> set (timers s)" "callback a = RemoveKey k" "timer i = Some (handle a)"
      and b: "b \<in> set (timers s)" "callback b = HardCap k r" "due b = created i + maxExpireDuration * 1000"
      by blast
    from objs[of r] i obtain i' where i': "obj s' r = Some i'" "core i' = core i" by auto
    have "a \<in> set (timers s')" using gone[OF a(1) _ that] a(2) by blast
    moreover have "b \<in> set (timers s')" using gone[OF b(1) _ that] b(2) by blast
    moreover have "timer i' = timer i" "created i' = created i" using i'(2) by (simp_all add: core_def)
    ultimately show ?thesis using i' a b by auto
  qed
  show "\<exists>r i. reg s' k = Some r \<and> obj s' r = Some i \<and> timer i = Some (handle t)"
    if "t \<in> set (timers s')" "callback t = RemoveKey k" for t k
  proof -
    from kept[OF that] obtain r where r: "reg s' k = Some r" by auto
    from that ts have "t \<in> set (timers s)" by auto
    from inv_renew[OF assms(1) this that(2)] sub[OF r] obtain i where
      i: "obj s r = Some i" "timer i = Some (handle t)" by auto
    from objs[of r] i obtain i' where "obj s' r = Some i'" "core i' = core i" by auto
    then show ?thesis using r i by (auto simp: core_def)
  qed
qed

lemma inv_frame:
  assumes "inv s" "frame s s'"
  shows "inv s'"
proof -
  have R: "reg s' = reg s" using assms(2) by (simp add: frame_def reg_def fun_eq_iff)
  show ?thesis
  proof (rule inv_sub[OF assms(1)])
    show "distinct (map fst (keys s'))" using inv_distinct_keys[OF assms(1)] assms(2) by (simp add: frame_def)
    show "distinct (map handle (timers s'))" using inv_distinct_handles[OF assms(1)] assms(2) by (simp add: frame_def)
    show "reg s' k \<noteq> None" if "t \<in> set (timers s')" "callback t = RemoveKey k" for t k
      using that inv_renew[OF assms(1), of t k] assms(2) R by (auto simp: frame_def)
  qed (use assms(2) R in \<open>auto simp: frame_def\<close>)
qed

lemma frame_refl [simp]: "frame s s"
  by (simp add: frame_def)

lemma frame_trans: "frame s s' \<Longrightarrow> frame s' s'' \<Longrightarrow> frame s s''"
  by (simp add: frame_def)

lemma frame_unlink [simp]: "frame s (unlink p s)"
  by (simp add: frame_def unlink_def)

lemma frame_fold_unlink [simp]: "frame s (fold unlink ps s)"
proof (induction ps arbitrary: s)
  case Nil
  then show ?case by simp
next
  case (Cons p ps)
  show ?case using frame_trans[OF frame_unlink Cons[of "unlink p s"]] by simp
qed

lemma frame_fs [simp]: "frame s (s\<lparr>fs := F\<rparr>)"
  by (simp add: frame_def)

lemma frame_heap_upd: "(\<And>i. core (f i) = core i) \<Longrightarrow> frame s (heap_upd r f s)"
  by (auto simp: frame_def obj_heap_upd option.map_comp comp_def intro!: option.map_cong)


lemma fs_fold_unlink: "fs (fold unlink ps s) = fs s - set ps"
  by (induction ps arbitrary: s) (auto simp: unlink_def)

lemma obj_fold_unlink [simp]: "obj (fold unlink ps s) = obj s"
  by (induction ps arbitrary: s) (simp_all add: unlink_def)

lemma frame_sym_fields:
  assumes "frame s s'"
  shows "keys s' = keys s" "timers s' = timers s" "now s' = now s"
    "next_handle s' = next_handle s" "next_ref s' = next_ref s" "reg s' = reg s"
  using assms by (simp_all add: frame_def reg_def fun_eq_iff)

lemma removeKey_absent: "reg s k = None \<Longrightarrow> removeKey k s = s"
  by (simp add: removeKey_def keys_get_eq)

lemma removeKey_view:
  assumes "reg s k = Some r" "obj s r = Some i"
  shows "keys (removeKey k s) = AList.delete k (keys s)"
    and "timers (removeKey k s) = timers (clearTimeout (timer i) s)"
    and "now (removeKey k s) = now s"
    and "next_handle (removeKey k s) = next_handle s"
    and "next_ref (removeKey k s) = next_ref s"
    and "fs (removeKey k s) = fs s - set (map path (files i))"
    and "map_option core (obj (removeKey k s) r') = map_option core (obj s r')"
    and "obj (removeKey k s) r = Some (i\<lparr>files := []\<rparr>)"
proof -
  define s1 where "s1 = clearTimeout (timer i) s"
  define s2 where "s2 = heap_upd r (\<lambda>i. i\<lparr>files := []\<rparr>) (fold unlink (map path (files i)) s1)"
  have f1: "frame s1 (fold unlink (map path (files i)) s1)" by simp
  have f2: "frame s1 s2" unfolding s2_def
    by (rule frame_trans[OF f1 frame_heap_upd]) (simp add: core_def)
  have o1: "obj (fold unlink ps s1) = obj s" for ps
    by (simp add: obj_fold_unlink s1_def)
  have R: "removeKey k s = (if files i \<noteq> [] then s2\<lparr>keys := AList.delete k (keys s2)\<rparr>
                             else s1\<lparr>keys := AList.delete k (keys s1)\<rparr>)"
    using assms by (simp add: removeKey_def keys_get_eq s1_def s2_def Let_def)
  have k2: "keys s2 = keys s" "timers s2 = timers s1" "now s2 = now s" "next_handle s2 = next_handle s"
    "next_ref s2 = next_ref s"
    using frame_sym_fields[OF f2] by (simp_all add: s1_def)
  have fs2: "fs s2 = fs s - set (map path (files i))"
    by (simp add: s2_def fs_fold_unlink s1_def)
  have o2: "obj s2 r' = (if r' = r then Some (i\<lparr>files := []\<rparr>) else obj s r')" for r'
    using assms(2) by (simp add: s2_def obj_heap_upd s1_def)
  show "keys (removeKey k s) = AList.delete k (keys s)" by (simp add: R k2 s1_def)
  show "timers (removeKey k s) = timers (clearTimeout (timer i) s)" by (simp add: R k2 s1_def)
  show "now (removeKey k s) = now s" by (simp add: R k2 s1_def)
  show "next_handle (removeKey k s) = next_handle s" by (simp add: R k2 s1_def)
  show "next_ref (removeKey k s) = next_ref s" by (simp add: R k2 s1_def)
  show "fs (removeKey k s) = fs s - set (map path (files i))" by (simp add: R fs2 s1_def)
  show "map_option core (obj (removeKey k s) r') = map_option core (obj s r')"
    using assms(2) by (simp add: R o2 s1_def core_def)
  show "obj (removeKey k s) r = Some (i\<lparr>files := []\<rparr>)"
    using assms(2) by (simp add: R o2 s1_def)
qed

lemma reg_delete: "keys s' = AList.delete k (keys s) \<Longrightarrow> reg s' = (reg s)(k := None)"
  by (simp add: reg_def fun_eq_iff delete_conv)

lemma find_handle:
  "find (\<lambda>t. handle t = h) ts = Some t \<Longrightarrow> t \<in> set ts \<and> handle t = h"
  by (auto simp: find_Some_iff)

lemma inv_fire:
  assumes "inv s"
  shows "inv (fire h s)"
proof (cases "find (\<lambda>t. handle t = h) (timers s)")
  case None
  then show ?thesis using assms by (simp add: fire_def)
next
  case (Some t)
  then have t: "t \<in> set (timers s)" "handle t = h" using find_handle by blast+
  define s0 where "s0 = s\<lparr>timers := filter (\<lambda>x. handle x \<noteq> h) (timers s)\<rparr>"
  have uniq: "x = t" if "x \<in> set (timers s)" "handle x = h" for x
    using inv_handle_eq[OF assms that(1) t(1)] that(2) t(2) by simp
  have s0: "keys s0 = keys s" "reg s0 = reg s" "obj s0 = obj s" "now s0 = now s"
    "next_handle s0 = next_handle s" "next_ref s0 = next_ref s"
    by (simp_all add: s0_def)
  have "{x \<in> set (timers s). handle x \<noteq> h} = set (timers s) - {t}"
    using uniq t by blast
  then have ts0: "set (timers s0) = set (timers s) - {t}"
    by (simp add: s0_def)
  have d0: "distinct (map handle (timers s0))"
    using inv_distinct_handles[OF assms] by (simp add: s0_def distinct_map_filter)
  have stale: "inv s0" if "\<And>k r. reg s k = Some r \<Longrightarrow> callback t \<noteq> RemoveKey k \<and> callback t \<noteq> HardCap k r"
  proof (rule inv_sub[OF assms])
    show "reg s0 k \<noteq> None" if "x \<in> set (timers s0)" "callback x = RemoveKey k" for x k
      using that inv_renew[OF assms, of x k] s0 ts0 by auto
    show "distinct (map fst (keys s0))" using inv_distinct_keys[OF assms] s0 by simp
    show "distinct (map handle (timers s0))" by (rule d0)
    show "reg s k = Some r" if "reg s0 k = Some r" for k r using that s0 by simp
    show "now s0 = now s" "next_handle s0 = next_handle s" "next_ref s0 = next_ref s"
      using s0 by simp_all
    show "set (timers s0) \<subseteq> set (timers s)" using ts0 by auto
    show "callback x \<noteq> RemoveKey k \<and> callback x \<noteq> HardCap k r"
      if "x \<in> set (timers s)" "x \<notin> set (timers s0)" "reg s0 k = Some r" for x k r
    proof -
      have "x = t" using that(1,2) ts0 by auto
      then show ?thesis using that(3) s0 \<open>\<And>k r. reg s k = Some r \<Longrightarrow> callback t \<noteq> RemoveKey k \<and> callback t \<noteq> HardCap k r\<close> by simp
    qed
    show "map_option core (obj s0 r) = map_option core (obj s r)" for r using s0 by simp
  qed
  have removed: "inv (removeKey k s0)"
    if reg: "reg s k = Some r" and cb: "callback t = RemoveKey k \<or> callback t = HardCap k r" for k r
  proof -
    from inv_live[OF assms reg] obtain i a where i: "obj s r = Some i"
      and a: "a \<in> set (timers s)" "callback a = RemoveKey k" "timer i = Some (handle a)" by blast
    have "reg s0 k = Some r" "obj s0 r = Some i" using reg i s0 by simp_all
    note v = removeKey_view[OF this, unfolded s0]
    have R: "reg (removeKey k s0) = (reg s)(k := None)"
      using reg_delete[OF v(1)] by (simp add: s0 reg_def)
    have ha: "(handle a = handle x) = (x = a)" if "x \<in> set (timers s)" for x
      using inv_handle_eq[OF assms that a(1)] by metis
    have T: "set (timers (removeKey k s0)) = set (timers s) - {t, a}"
      unfolding v(2) set_timers_clearTimeout ts0 a(3) by (auto simp: ha)
    show ?thesis
    proof (rule inv_sub[OF assms])
      show "distinct (map fst (keys (removeKey k s0)))"
        unfolding v(1) using inv_distinct_keys[OF assms] by (simp add: distinct_delete)
      show "distinct (map handle (timers (removeKey k s0)))"
        unfolding v(2) by (rule distinct_timers_clearTimeout[OF d0])
      show "reg s k' = Some r'" if "reg (removeKey k s0) k' = Some r'" for k' r'
        using that unfolding R by (auto split: if_splits)
      show "set (timers (removeKey k s0)) \<subseteq> set (timers s)" unfolding T by auto
      show "callback x \<noteq> RemoveKey k' \<and> callback x \<noteq> HardCap k' r'"
        if "x \<in> set (timers s)" "x \<notin> set (timers (removeKey k s0))" "reg (removeKey k s0) k' = Some r'"
        for x k' r'
      proof -
        from that(3) have "k' \<noteq> k" unfolding R by (auto split: if_splits)
        moreover from that(1,2) have "x = t \<or> x = a" unfolding T by auto
        ultimately show ?thesis using cb a(2) by auto
      qed
      show "reg (removeKey k s0) k' \<noteq> None"
        if "x \<in> set (timers (removeKey k s0))" "callback x = RemoveKey k'" for x k'
      proof -
        from that(1) have x: "x \<in> set (timers s)" "x \<noteq> a" unfolding T by auto
        from inv_renew[OF assms x(1) that(2)] obtain r' i' where
          r': "reg s k' = Some r'" "obj s r' = Some i'" "timer i' = Some (handle x)" by blast
        have "k' \<noteq> k"
        proof
          assume "k' = k"
          then have "handle x = handle a" using r' reg i a by simp
          then show False using inv_handle_eq[OF assms x(1) a(1)] x(2) by simp
        qed
        then show ?thesis using r' unfolding R by simp
      qed
      show "now (removeKey k s0) = now s" "next_handle (removeKey k s0) = next_handle s"
        "next_ref (removeKey k s0) = next_ref s"
        using v(3,4,5) by simp_all
      show "map_option core (obj (removeKey k s0) r') = map_option core (obj s r')" for r'
        using v(7) by simp
    qed
  qed
  show ?thesis
  proof (cases "due t \<le> now s")
    case False
    then show ?thesis using Some assms by (simp add: fire_def)
  next
    case True
    then have F: "fire h s = run_callback (callback t) s0"
      using Some by (simp add: fire_def s0_def)
    show ?thesis
    proof (cases "callback t")
      case (RemoveKey k)
      from inv_renew[OF assms t(1) RemoveKey] obtain r where "reg s k = Some r" by blast
      from removed[OF this] RemoveKey show ?thesis by (simp add: F run_callback_def)
    next
      case (HardCap k r)
      show ?thesis
      proof (cases "reg s k = Some r")
        case True
        from removed[OF True] HardCap True show ?thesis
          by (simp add: F run_callback_def s0_def reg_def)
      next
        case False
        have "inv s0"
        proof (rule stale)
          fix k' r' assume "reg s k' = Some r'"
          then show "callback t \<noteq> RemoveKey k' \<and> callback t \<noteq> HardCap k' r'"
            using False HardCap by auto
        qed
        then show ?thesis using HardCap False by (simp add: F run_callback_def s0_def reg_def)
      qed
    qed
  qed
qed

lemma inv_init: "inv init_state"
  by (simp add: inv_def init_state_def reg_def)

lemma inv_advance: "inv s \<Longrightarrow> inv (advance t s)"
  by (auto simp: advance_def inv_def reg_def obj_def)

lemma pick_key_fresh:
  "pick_key ks rnd a = Some (key, a') \<Longrightarrow> map_of ks key = None"
proof (induction ks rnd a rule: pick_key.induct)
  case (1 ks rnd attempts)
  then show ?case
    by (subst (asm) (2) pick_key.simps) (auto simp: Let_def split: if_splits)
qed

lemma frame_convert_kindlegen: "frame s (snd (convert_kindlegen file s))"
  by (auto simp: convert_kindlegen_def Let_def frame_def unlink_def split: ended.splits)

lemma frame_convert_kepubify: "frame s (snd (convert_kepubify file s))"
  by (auto simp: convert_kepubify_def Let_def frame_def unlink_def split: ended.splits)

lemma frame_processFile: "frame s (snd (processFile l req ua file s))"
  using frame_convert_kindlegen[of s "file"] frame_convert_kepubify[of s "file"]
  by (auto simp: processFile_def Let_def split: prod.splits sum.splits)

lemma frame_upload_one: "frame s (snd (snd (upload_one l req r file (ms, ps, s))))"
proof (cases "map_of (heap s) r")
  case None
  then show ?thesis by (simp add: upload_one_def)
next
  case (Some i)
  obtain res s1 where pf: "processFile l req (agent i) file s = (res, s1)"
    by (cases "processFile l req (agent i) file s") auto
  have f1: "frame s s1" using frame_processFile[of s l req "agent i" "file"] pf by simp
  have "frame s (heap_upd r (\<lambda>i. i\<lparr>files := files i @ [p]\<rparr>) s1)" for p
    by (rule frame_trans[OF f1 frame_heap_upd]) (simp add: core_def)
  moreover have "frame s (unlink p s1)" for p
    by (rule frame_trans[OF f1 frame_unlink])
  ultimately show ?thesis
    using Some pf by (cases res) (simp_all add: upload_one_def)
qed

lemma frame_fold_upload_one:
  "frame s (snd (snd (fold (upload_one l req r) fl (ms, ps, s))))"
proof (induction fl arbitrary: ms ps s)
  case Nil
  then show ?case by simp
next
  case (Cons f fl)
  obtain ms' ps' s' where u: "upload_one l req r f (ms, ps, s) = (ms', ps', s')"
    by (cases "upload_one l req r f (ms, ps, s)") auto
  have "frame s s'" using frame_upload_one[of s l req r f ms ps] u by simp
  then show ?case using Cons.IH[where ms=ms' and ps=ps' and s=s'] u by (auto intro: frame_trans)
qed

lemma frame_multer_array: "frame s (snd (multer_array l req ps stored s))"
proof (induction ps arbitrary: stored s)
  case Nil
  then show ?case by simp
next
  case (Cons p ps)
  show ?case
  proof (cases "fileFilter l req p s")
    case (Inl e)
    then show ?thesis by simp
  next
    case (Inr f)
    have "frame s (s\<lparr>fs := insert (mpath f) (fs s)\<rparr>)" by simp
    from frame_trans[OF this Cons] Inr show ?thesis by simp
  qed
qed

lemma keys_get_SomeD: "keys_get s k = Some (r, i) \<Longrightarrow> reg s k = Some r \<and> obj s r = Some i"
  by (auto simp: keys_get_eq split: option.splits)

lemma inv_get_status: "inv s \<Longrightarrow> inv (snd (get_status key ua s))"
  by (auto simp: get_status_def Let_def split: option.splits prod.splits
           dest!: keys_get_SomeD dest: inv_expireKey[where k="toUpperCase key"])

lemma inv_downloadFile: "inv s \<Longrightarrow> inv (snd (downloadFile l qkey fn ua s))"
  by (auto simp: downloadFile_def Let_def split: option.splits prod.splits if_splits
           dest!: keys_get_SomeD dest: inv_expireKey)

lemma inv_delete_file: "inv s \<Longrightarrow> inv (snd (delete_file l key fn s))"
proof -
  have "frame s (heap_upd r f (unlink p s))" if "\<And>i. core (f i) = core i" for r f p
    by (rule frame_trans[OF frame_unlink frame_heap_upd]) (rule that)
  then have "frame s (snd (delete_file l key fn s))"
    by (auto simp: delete_file_def Let_def core_def split: option.splits)
  then show "inv s \<Longrightarrow> inv (snd (delete_file l key fn s))" by (rule inv_frame[rotated])
qed

lemma inv_upload_handler:
  assumes "inv s"
  shows "inv (snd (upload_handler l req stored s))"
proof (cases "getKeyFromRequest req")
  case None
  then show ?thesis using inv_frame[OF assms frame_fold_unlink] by (simp add: upload_handler_def)
next
  case (Some key)
  show ?thesis
  proof (cases "map_of (keys s) key")
    case None
    then show ?thesis using Some inv_frame[OF assms frame_fold_unlink] by (simp add: upload_handler_def)
  next
    case (Some r)
    obtain tm s1 where e: "expireKey key s = (tm, s1)" by (cases "expireKey key s") auto
    have i1: "inv s1" using inv_expireKey[OF assms, of key r] Some e by (simp add: reg_def)
    define url where "url = (case body_url req of None \<Rightarrow> None | Some u \<Rightarrow> if u = [] then None else Some (trim u))"
    define s2 where "s2 = (case url of None \<Rightarrow> s1
                          | Some u \<Rightarrow> heap_upd r (\<lambda>i. if u \<noteq> [] \<and> u \<notin> set (urls i)
                                              then i\<lparr>urls := urls i @ [u]\<rparr> else i) s1)"
    have "frame s1 s2" unfolding s2_def
      by (auto split: option.splits intro!: frame_heap_upd simp: core_def)
    then have i2: "inv s2" using i1 inv_frame by blast
    obtain ms ps s3 where f: "fold (upload_one l req r) stored ([], [], s2) = (ms, ps, s3)"
      by (cases "fold (upload_one l req r) stored ([], [], s2)") auto
    have "frame s2 s3" using frame_fold_upload_one[of s2 l req r stored "[]" "[]"] f by simp
    then have i3: "inv s3" using i2 inv_frame by blast
    have "snd (upload_handler l req stored s) = s3"
      using \<open>getKeyFromRequest req = Some key\<close> Some e f
      by (simp add: upload_handler_def url_def[symmetric] s2_def[symmetric] Let_def)
    then show ?thesis using i3 by simp
  qed
qed

lemma inv_post_upload: "inv s \<Longrightarrow> inv (snd (post_upload l req s))"
proof -
  assume a: "inv s"
  obtain res s1 where m: "multer_array l req (parts req) [] s = (res, s1)"
    by (cases "multer_array l req (parts req) [] s") auto
  have "frame s s1" using frame_multer_array[of s l req "parts req" "[]"] m by simp
  then have "inv s1" using a inv_frame by blast
  then show ?thesis using m inv_upload_handler[of s1 l req]
    by (cases res) (simp_all add: post_upload_def)
qed

lemma inv_UploadFile: "inv s \<Longrightarrow> inv (snd (snd (upload_one l req r file ([], [], s))))"
  using frame_upload_one inv_frame by blast

lemma generate_None:
  "pick_key (keys s) rnd 0 = None \<Longrightarrow> generate ua rnd s = (Reply 200 False (Plain ''error''), s)"
  by (simp add: generate_def)

lemma generate_Some:
  assumes "pick_key (keys s) rnd 0 = Some (key, a)"
  shows "generate ua rnd s =
    (Reply 200 False (Plain key),
     s\<lparr>keys := AList.update key (next_ref s) (keys s),
       heap := AList.update (next_ref s)
                 \<lparr>created = now s, agent = ua, files = [], urls = [],
                    timer = Some (next_handle s), alive = now s\<rparr> (heap s),
       next_ref := next_ref s + 1,
       timers := timers s @
          [\<lparr>handle = next_handle s, due = now s + expireDelay * 1000, callback = RemoveKey key\<rparr>,
           \<lparr>handle = next_handle s + 1, due = now s + maxExpireDuration * 1000,
              callback = HardCap key (next_ref s)\<rparr>],
       next_handle := next_handle s + 2\<rparr>)"
  using assms
  by (simp add: generate_def Let_def expireKey_def keys_get_def update_conv' setTimeout_def
        heap_upd_def clearTimeout_def)

lemma inv_generate:
  assumes "inv s"
  shows "inv (snd (generate ua rnd s))"
proof (cases "pick_key (keys s) rnd 0")
  case None
  then show ?thesis using assms by (simp add: generate_None)
next
  case (Some p)
  obtain key a where p: "p = (key, a)" by (cases p) auto
  define n1 where "n1 = \<lparr>handle = next_handle s, due = now s + expireDelay * 1000, callback = RemoveKey key\<rparr>"
  define n2 where "n2 = \<lparr>handle = next_handle s + 1, due = now s + maxExpireDuration * 1000,
              callback = HardCap key (next_ref s)\<rparr>"
  define i1 where "i1 = \<lparr>created = now s, agent = ua, files = [], urls = [],
                    timer = Some (next_handle s), alive = now s\<rparr>"
  define s' where "s' = snd (generate ua rnd s)"
  note g = generate_Some[OF Some[unfolded p], of ua, folded n1_def n2_def i1_def]
  have fresh: "reg s key = None" using pick_key_fresh[OF Some[unfolded p]] by (simp add: reg_def)
  have lt: "\<And>t. t \<in> set (timers s) \<Longrightarrow> handle t < next_handle s"
    using inv_timer[OF assms] by blast
  have K: "keys s' = AList.update key (next_ref s) (keys s)" "now s' = now s"
    "next_ref s' = Suc (next_ref s)" "next_handle s' = Suc (Suc (next_handle s))"
    by (simp_all add: s'_def g)
  have R: "reg s' k = (if k = key then Some (next_ref s) else reg s k)" for k
    by (simp add: reg_def K update_conv')
  have T: "set (timers s') = set (timers s) \<union> {n1, n2}"
    by (auto simp: s'_def g)
  have N: "handle n1 = next_handle s" "handle n2 = Suc (next_handle s)" "callback n1 = RemoveKey key"
    "callback n2 = HardCap key (next_ref s)" "due n1 = now s + expireDelay * 1000"
    "due n2 = now s + maxExpireDuration * 1000"
    by (simp_all add: n1_def n2_def)
  have nh: "next_handle s \<notin> handle ` set (timers s)" "Suc (next_handle s) \<notin> handle ` set (timers s)"
    using lt by force+
  have D: "distinct (map handle (timers s'))"
    using inv_distinct_handles[OF assms] nh by (simp add: s'_def g N)
  have O: "obj s' r = (if r = next_ref s then Some i1 else obj s r)" for r
    by (simp add: s'_def g obj_def update_conv')
  have I: "timer i1 = Some (next_handle s)" "created i1 = now s" by (simp_all add: i1_def)
  have "inv s'"
  proof (rule invI)
    show "distinct (map fst (keys s'))"
      using inv_distinct_keys[OF assms] by (simp add: K distinct_update)
    show "distinct (map handle (timers s'))" by (rule D)
    show "handle t < next_handle s' \<and> now s' \<le> due t" if "t \<in> set (timers s')" for t
      using that inv_timer[OF assms, of t] unfolding T K by (auto simp: N)
    show "r < next_ref s'" if "reg s' k = Some r" for k r
      using that inv_ref[OF assms, of k r] unfolding R K by (auto split: if_splits)
    show "k = k'" if "reg s' k = Some r" "reg s' k' = Some r" for k k' r
      using that inv_inj[OF assms, of k r k'] inv_ref[OF assms, of k r] inv_ref[OF assms, of k' r]
      unfolding R by (auto split: if_splits)
    show "\<exists>i. obj s' r = Some i \<and>
           (\<exists>t \<in> set (timers s'). callback t = RemoveKey k \<and> timer i = Some (handle t)) \<and>
           (\<exists>t \<in> set (timers s'). callback t = HardCap k r
                \<and> due t = created i + maxExpireDuration * 1000)" if "reg s' k = Some r" for k r
    proof (cases "k = key")
      case True
      then have "r = next_ref s" using that unfolding R by simp
      moreover have "n1 \<in> set (timers s')" "n2 \<in> set (timers s')" unfolding T by simp_all
      ultimately show ?thesis using True N I unfolding O by simp metis
    next
      case False
      then have rk: "reg s k = Some r" using that unfolding R by simp
      then have "r \<noteq> next_ref s" using inv_ref[OF assms rk] by simp
      then show ?thesis using inv_live[OF assms rk] unfolding O T by auto
    qed
    show "\<exists>r i. reg s' k = Some r \<and> obj s' r = Some i \<and> timer i = Some (handle t)"
      if "t \<in> set (timers s')" "callback t = RemoveKey k" for t k
    proof (cases "t \<in> set (timers s)")
      case True
      from inv_renew[OF assms True that(2)] obtain r i where
        x: "reg s k = Some r" "obj s r = Some i" "timer i = Some (handle t)" by blast
      then have "k \<noteq> key" "r \<noteq> next_ref s" using fresh inv_ref[OF assms x(1)] by auto
      then show ?thesis using x unfolding R O by simp
    next
      case False
      then have "t = n1" using that N unfolding T by auto
      then show ?thesis using that N I unfolding R O by simp
    qed
  qed
  then show ?thesis by (simp add: s'_def)
qed

lemma inv_step: "inv s \<Longrightarrow> inv (step l e s)"
  by (cases e)
     (simp_all add: step_def inv_generate inv_get_status inv_downloadFile inv_delete_file
        inv_post_upload inv_UploadFile inv_fire inv_advance)

lemma inv_run: "inv s \<Longrightarrow> inv (run l evs s)"
  unfolding run_def by (induction evs arbitrary: s) (simp_all add: inv_step)

lemma inv_reachable: "inv (run l evs init_state)"
  by (rule inv_run[OF inv_init])

subsection \<open>Key generator\<close>











lemma randomKey_0: "randomKey 0 = ''2222''"
  by (simp add: randomKey_def keyChars_def keyLength_def padStart_def toString_radix_def
        digit_char_def key_symbol_def parseInt_chr_def to_digits.simps eval_nat_numeral)

subsection \<open>Evaluation of the examples\<close>

lemmas exec_defs =
  run_def step_def generate_def get_status_def downloadFile_def delete_file_def
  fire_def advance_def run_callback_def removeKey_def expireKey_def setTimeout_def
  clearTimeout_def heap_upd_def keys_get_def unlink_def init_state_def
  expireDelay_def maxExpireDuration_def pick_key.simps randomKey_0
  toUpperCase_def toUpperCase_chr_def lower_letters_def upper_letters_def Let_def

lemma touched_run: "run id_lib touched_events init_state = touched_state"
  by (simp add: touched_events_def touched_state_def exec_defs)


lemmas upload_defs =
  post_upload_def upload_handler_def upload_one_def processFile_def display_name_def
  effective_mimetype_def transliterated_name_def fileFilter_def getKeyFromRequest_def trimmed_upper_def trim_def
  is_space_def mpath_def extname_def toLowerCase_def toLowerCase_chr_def allowedTypes_def
  allowedExtensions_def TYPE_EPUB_def TYPE_MOBI_def replace_end_ci_def flash_def id_lib_def
  check_mark_def ballot_x_def string_of_nat.simps convert_kindlegen_def convert_kepubify_def
  kindle_replace_def kindle_keep_def is_word_char_def show_code_def string_of_int_def


lemma reissued_run: "run id_lib reissued_events init_state = reissued_state"
  by (simp add: reissued_events_def expired_events_def reissued_state_def exec_defs)

lemma started_run:
  "run id_lib [Generate ''Kindle'' (\<lambda>_. 0), Advance 600000] init_state = started_state"
  by (simp add: started_state_def exec_defs)

subsection \<open>Firing a timeout\<close>

lemma find_by_handle:
  "distinct (map handle ts) \<Longrightarrow> t \<in> set ts \<Longrightarrow> find (\<lambda>x. handle x = handle t) ts = Some t"
  by (induction ts) (auto simp: image_iff)

lemma fire_due:
  assumes "inv s" "t \<in> set (timers s)" "due t \<le> now s"
  shows "fire (handle t) s =
           run_callback (callback t) (s\<lparr>timers := filter (\<lambda>x. handle x \<noteq> handle t) (timers s)\<rparr>)"
  using assms find_by_handle[OF inv_distinct_handles[OF assms(1)] assms(2)]
  by (simp add: fire_def)

lemma filter_handle_set:
  assumes "inv s" "t \<in> set (timers s)"
  shows "set (filter (\<lambda>x. handle x \<noteq> handle t) (timers s)) = set (timers s) - {t}"
proof -
  have "(handle x = handle t) = (x = t)" if "x \<in> set (timers s)" for x
    using inv_handle_eq[OF assms(1) that assms(2)] by metis
  then show ?thesis using assms(2) by auto
qed

text \<open>
  What a due timeout of a registered session does when it fires, for either of its two
  timeouts.
\<close>

lemma fire_own_timer:
  assumes i: "inv s" and t: "t \<in> set (timers s)" "due t \<le> now s"
    and r: "reg s k = Some r" "obj s r = Some i"
    and cb: "callback t = RemoveKey k \<or> callback t = HardCap k r"
  shows "reg (fire (handle t) s) = (reg s)(k := None)"
    and "fs (fire (handle t) s) = fs s - set (map path (files i))"
    and "set (timers (fire (handle t) s)) = {x \<in> set (timers s). x \<noteq> t \<and> callback x \<noteq> RemoveKey k}"
    and "obj (fire (handle t) s) r = Some (i\<lparr>files := []\<rparr>)"
    and "now (fire (handle t) s) = now s"
proof -
  define s0 where "s0 = s\<lparr>timers := filter (\<lambda>x. handle x \<noteq> handle t) (timers s)\<rparr>"
  have r0: "reg s0 k = Some r" "obj s0 r = Some i" using r by (simp_all add: s0_def)
  have "fire (handle t) s = run_callback (callback t) s0"
    using fire_due[OF i t] by (simp add: s0_def)
  then have F: "fire (handle t) s = removeKey k s0"
    using cb r0(1) by (auto simp: run_callback_def reg_def)
  note v = removeKey_view[OF r0]
  show "reg (fire (handle t) s) = (reg s)(k := None)"
    unfolding F using reg_delete[OF v(1)] by (simp add: s0_def)
  show "fs (fire (handle t) s) = fs s - set (map path (files i))"
    unfolding F v(6) by (simp add: s0_def)
  show "obj (fire (handle t) s) r = Some (i\<lparr>files := []\<rparr>)"
    unfolding F by (rule v(8))
  show "now (fire (handle t) s) = now s" unfolding F v(3) by (simp add: s0_def)
  from inv_live[OF i r(1)] r(2) obtain a where
    a: "a \<in> set (timers s)" "callback a = RemoveKey k" "timer i = Some (handle a)" by auto
  have own: "(callback x = RemoveKey k) = (x = a)" if "x \<in> set (timers s)" for x
  proof
    assume "callback x = RemoveKey k"
    from inv_renew[OF i that this] r a have "handle x = handle a" by simp
    then show "x = a" using inv_handle_eq[OF i that a(1)] by simp
  next
    assume "x = a" then show "callback x = RemoveKey k" using a by simp
  qed
  have ha: "(handle a = handle x) = (x = a)" if "x \<in> set (timers s)" for x
    using inv_handle_eq[OF i that a(1)] by metis
  have ts0: "set (timers s0) = set (timers s) - {t}"
    using filter_handle_set[OF i t(1)] by (simp add: s0_def)
  have "set (timers (removeKey k s0)) = {x \<in> set (timers s) - {t}. x \<noteq> a}"
    unfolding v(2) set_timers_clearTimeout a(3) ts0 by (auto simp: ha)
  also have "\<dots> = {x \<in> set (timers s). x \<noteq> t \<and> callback x \<noteq> RemoveKey k}"
    by (auto simp: own)
  finally show "set (timers (fire (handle t) s)) = {x \<in> set (timers s). x \<noteq> t \<and> callback x \<noteq> RemoveKey k}"
    unfolding F .
qed

subsection \<open>File names\<close>

lemma mem_via_of_char: "(c \<in> set S) = ((of_char c :: nat) \<in> set (map of_char S))"
proof -
  have "inj (of_char :: char \<Rightarrow> nat)" by (simp add: inj_on_def)
  then show ?thesis by (auto simp: inj_image_mem_iff)
qed

lemma range_as_set: "(a \<le> n \<and> n \<le> b) = (n \<in> set [a..<Suc b])" for n :: nat
  by auto

lemma kindle_keep_iff: "kindle_keep c = (c \<in> kindle_allowed)"
proof -
  have "kindle_keep c = ((of_char c :: nat) \<in> set ([48..<58] @ [65..<91] @ [97..<123] @ [95, 46, 45, 34, 39, 40, 41]))"
    apply (simp only: kindle_keep_def is_word_char_def Let_def range_as_set)
    apply (simp only: set_append Un_iff)
    apply (subst (1 2 3 4 5 6) of_char_eq_iff[symmetric, where ?'a=nat])
    apply simp
    by blast
  also have "\<dots> = (c \<in> kindle_allowed)"
    unfolding kindle_allowed_def mem_via_of_char[of c]
    by (simp add: upt_conv_Cons eval_nat_numeral) blast
  finally show ?thesis .
qed

lemma set_replace_end_ci: "set (replace_end_ci suf r x) \<subseteq> set x \<union> set r"
  by (auto simp: replace_end_ci_def Let_def dest: in_set_takeD)

lemma set_kindle_replace: "set (kindle_replace x) \<subseteq> kindle_allowed"
  by (auto simp: kindle_replace_def kindle_keep_iff) (simp add: kindle_allowed_def)

lemma kindle_suffixes:
  "set ''.mobi'' \<subseteq> kindle_allowed" "set ''.epub'' \<subseteq> kindle_allowed"
  "set ''.kepub.epub'' \<subseteq> kindle_allowed" "set ''.pdf'' \<subseteq> kindle_allowed"
  by (simp_all add: kindle_allowed_def)

lemma set_replace_twice:
  "set x \<subseteq> A \<Longrightarrow> set r1 \<subseteq> A \<Longrightarrow> set r2 \<subseteq> A \<Longrightarrow>
     set (replace_end_ci suf2 r2 (replace_end_ci suf1 r1 x)) \<subseteq> A"
  using set_replace_end_ci[of suf2 r2 "replace_end_ci suf1 r1 x"] set_replace_end_ci[of suf1 r1 x]
  by blast

subsection \<open>Upload\<close>




lemma epub_legacy_not_allowed: "''application/epub'' \<notin> set allowedTypes"
  by (simp add: allowedTypes_def TYPE_EPUB_def TYPE_MOBI_def)

lemma octet_not_allowed: "''application/octet-stream'' \<notin> set allowedTypes"
  by (simp add: allowedTypes_def TYPE_EPUB_def TYPE_MOBI_def)




lemma fs_convert_kindlegen:
  "mpath file \<notin> fs (snd (convert_kindlegen file s)) \<and>
   replace_end_ci ''.epub'' ''.mobi8'' (mpath file) \<notin> fs (snd (convert_kindlegen file s))"
  by (auto simp: convert_kindlegen_def Let_def unlink_def split: ended.splits)

lemma fs_convert_kepubify: "mpath file \<notin> fs (snd (convert_kepubify file s))"
  by (auto simp: convert_kepubify_def Let_def unlink_def split: ended.splits)

lemma isl_convert_kindlegen:
  "isl (fst (convert_kindlegen file s)) =
     (ended (converter file) \<noteq> Closed (Some 0) \<and> ended (converter file) \<noteq> Closed (Some 1))"
  by (auto simp: convert_kindlegen_def Let_def split: ended.splits)

lemma isl_convert_kepubify:
  "isl (fst (convert_kepubify file s)) = (ended (converter file) \<noteq> Closed (Some 0))"
  by (auto simp: convert_kepubify_def Let_def split: ended.splits)

lemma TYPE_EPUB_allowed: "TYPE_EPUB \<in> set allowedTypes"
  by (simp add: allowedTypes_def)

lemma processFile_kindlegen:
  assumes "effective_mimetype file = TYPE_EPUB" "str_includes ua ''Kindle''" "kindlegen req"
  shows "processFile l req ua file s =
     (case convert_kindlegen file s of
        (Inl err, s1) \<Rightarrow> (Inl err, s1)
      | (Inr outname, s1) \<Rightarrow>
          (Inr \<lparr>name = replace_end_ci ''.epub'' ''.mobi''
                         (replace_end_ci ''.kepub.epub'' ''.epub'' (display_name l req ua file)),
                path = outname, uploaded = now s1, conversion = Some ''kindlegen''\<rparr>, s1))"
  using assms TYPE_EPUB_allowed by (simp add: processFile_def Let_def)

lemma processFile_kepubify:
  assumes "effective_mimetype file = TYPE_EPUB" "\<not> (str_includes ua ''Kindle'' \<and> kindlegen req)"
    "str_includes ua ''Kobo''" "kepubify req"
  shows "processFile l req ua file s =
     (case convert_kepubify file s of
        (Inl err, s1) \<Rightarrow> (Inl err, s1)
      | (Inr outname, s1) \<Rightarrow>
          (Inr \<lparr>name = replace_end_ci ''.epub'' ''.kepub.epub''
                         (replace_end_ci ''.kepub.epub'' ''.epub'' (display_name l req ua file)),
                path = outname, uploaded = now s1, conversion = Some ''kepubify''\<rparr>, s1))"
  using assms TYPE_EPUB_allowed by (auto simp: processFile_def Let_def)

section \<open>Claims\<close>

subsection \<open>C1: the hard cap\<close>

text \<open>
  C1.  In every state the program can reach, by any sequence of requests and timer events,
  a registered session is no older than the hard cap: its hard-cap timeout, scheduled at
  creation for \<open>created + maxExpireDuration\<close>, is still pending whatever touched the
  session, the clock cannot pass a pending timeout, and when that timeout fires the key
  leaves the registry.  (Timeouts fire on time in this model: \<open>advance\<close> stops at the
  earliest pending one.)
\<close>

theorem hard_cap_bounds_lifetime:
  assumes "s = run l evs init_state" and "reg s k = Some r" and "obj s r = Some i"
  shows "now s \<le> created i + maxExpireDuration * 1000 \<and>
         (\<exists>t \<in> set (timers s).
            callback t = HardCap k r \<and> due t = created i + maxExpireDuration * 1000 \<and>
            (due t \<le> now s \<longrightarrow> reg (fire (handle t) s) k = None)) \<and>
         (\<forall>t'. created i + maxExpireDuration * 1000 < t' \<longrightarrow> advance t' s = s)"
proof -
  have i: "inv s" using assms(1) inv_reachable by simp
  from inv_live[OF i assms(2)] assms(3) obtain b where
    b: "b \<in> set (timers s)" "callback b = HardCap k r" "due b = created i + maxExpireDuration * 1000"
    by auto
  have 1: "now s \<le> created i + maxExpireDuration * 1000"
    using inv_timer[OF i b(1)] b(3) by simp
  have 2: "reg (fire (handle b) s) k = None" if "due b \<le> now s"
    using fire_own_timer(1)[OF i b(1) that assms(2,3)] b(2) by simp
  have 3: "advance t' s = s" if "created i + maxExpireDuration * 1000 < t'" for t'
    using that b by (auto simp: advance_def)
  show ?thesis using 1 2 3 b by blast
qed

theorem hard_cap_bounds_lifetime_witness:
  "touched_state = run id_lib touched_events init_state \<and>
   reg touched_state ''2222'' = Some 0 \<and>
   obj touched_state 0 = Some \<lparr>created = 0, agent = ''Kobo'', files = [], urls = [], timer = Some 8,
                                alive = 3500000\<rparr> \<and>
   now touched_state \<le> 0 + maxExpireDuration * 1000 \<and>
   advance 3600001 touched_state = touched_state \<and>
   reg (fire 1 touched_state) ''2222'' = None"
proof -
  have h1: "touched_state = run id_lib touched_events init_state" by (simp add: touched_run)
  have h2: "reg touched_state ''2222'' = Some 0" by (simp add: touched_state_def reg_def)
  have h3: "obj touched_state 0 = Some \<lparr>created = 0, agent = ''Kobo'', files = [], urls = [],
              timer = Some 8, alive = 3500000\<rparr>"
    by (simp add: touched_state_def obj_def)
  have f: "reg (fire 1 touched_state) ''2222'' = None"
    by (simp add: touched_state_def reg_def exec_defs)
  from hard_cap_bounds_lifetime[OF h1 h2 h3] h1 h2 h3 f show ?thesis
    by (simp add: maxExpireDuration_def)
qed

subsection \<open>C2: generated keys\<close>




subsection \<open>C3: what expiry does\<close>




subsection \<open>C4: timeouts of an earlier session\<close>

text \<open>
  C4.  Let a key be registered to a session, and let a pending timeout for that key be
  neither the hard-cap timeout of that session nor the timeout whose handle the session
  stores.  Then it is the hard-cap timeout of another object, an earlier session of the
  key, and when it fires it only leaves the pending list: the registry, the objects with
  their files and timers, the files on disk and all other timeouts are as before.  A
  renewable timeout of an earlier session is never pending.
\<close>

theorem stale_timer_is_guarded_noop:
  assumes "s = run l evs init_state" and "t \<in> set (timers s)" and "due t \<le> now s"
    and "callback t = RemoveKey k \<or> callback t = HardCap k r'"
    and "reg s k = Some r" and "obj s r = Some i"
    and "callback t \<noteq> HardCap k r" and "timer i \<noteq> Some (handle t)"
  shows "callback t = HardCap k r' \<and> r' \<noteq> r \<and>
         fire (handle t) s = s\<lparr>timers := filter (\<lambda>x. handle x \<noteq> handle t) (timers s)\<rparr> \<and>
         reg (fire (handle t) s) k = Some r \<and> obj (fire (handle t) s) r = Some i \<and>
         fs (fire (handle t) s) = fs s \<and>
         (\<exists>a \<in> set (timers (fire (handle t) s)). callback a = RemoveKey k \<and> timer i = Some (handle a)) \<and>
         (\<exists>b \<in> set (timers (fire (handle t) s)). callback b = HardCap k r)"
proof -
  have i: "inv s" using assms(1) inv_reachable by simp
  have nr: "callback t \<noteq> RemoveKey k"
  proof
    assume "callback t = RemoveKey k"
    from inv_renew[OF i assms(2) this] assms(5,6,8) show False by auto
  qed
  then have hc: "callback t = HardCap k r'" using assms(4) by simp
  then have ne: "r' \<noteq> r" using assms(7) by auto
  have F: "fire (handle t) s = s\<lparr>timers := filter (\<lambda>x. handle x \<noteq> handle t) (timers s)\<rparr>"
    using fire_due[OF i assms(2,3)] hc ne assms(5) by (simp add: run_callback_def reg_def)
  have i': "inv (fire (handle t) s)" by (rule inv_fire[OF i])
  have R: "reg (fire (handle t) s) k = Some r" "obj (fire (handle t) s) r = Some i"
    "fs (fire (handle t) s) = fs s"
    using assms(5,6) by (simp_all add: F)
  from inv_live[OF i' R(1)] R(2) have
    "(\<exists>a \<in> set (timers (fire (handle t) s)). callback a = RemoveKey k \<and> timer i = Some (handle a)) \<and>
     (\<exists>b \<in> set (timers (fire (handle t) s)). callback b = HardCap k r)"
    by auto
  then show ?thesis using hc ne F R by blast
qed

theorem stale_timer_is_guarded_noop_witness:
  "reissued_state = run id_lib reissued_events init_state \<and>
   \<lparr>handle = 1, due = 3600000, callback = HardCap ''2222'' 0\<rparr> \<in> set (timers reissued_state) \<and>
   (3600000::nat) \<le> now reissued_state \<and>
   reg reissued_state ''2222'' = Some 1 \<and>
   obj reissued_state 1 = Some \<lparr>created = 600000, agent = ''Kobo'', files = [], urls = [],
                                 timer = Some 7, alive = 3000000\<rparr> \<and>
   fire 1 reissued_state =
     reissued_state\<lparr>timers := [\<lparr>handle = 3, due = 4200000, callback = HardCap ''2222'' 1\<rparr>,
                                \<lparr>handle = 7, due = 3600000, callback = RemoveKey ''2222''\<rparr>]\<rparr>"
proof -
  define t where "t = \<lparr>handle = 1, due = 3600000, callback = HardCap ''2222'' 0\<rparr>"
  define j where "j = \<lparr>created = 600000, agent = ''Kobo'', files = [], urls = [],
                       timer = Some 7, alive = 3000000\<rparr>"
  have h1: "reissued_state = run id_lib reissued_events init_state" by (simp add: reissued_run)
  have h2: "t \<in> set (timers reissued_state)" by (simp add: t_def reissued_state_def)
  have h3: "due t \<le> now reissued_state" by (simp add: t_def reissued_state_def)
  have h4: "callback t = RemoveKey ''2222'' \<or> callback t = HardCap ''2222'' 0" by (simp add: t_def)
  have h5: "reg reissued_state ''2222'' = Some 1" by (simp add: reissued_state_def reg_def)
  have h6: "obj reissued_state 1 = Some j" by (simp add: reissued_state_def obj_def j_def)
  have h7: "callback t \<noteq> HardCap ''2222'' 1" by (simp add: t_def)
  have h8: "timer j \<noteq> Some (handle t)" by (simp add: t_def j_def)
  have "fire (handle t) reissued_state =
          reissued_state\<lparr>timers := filter (\<lambda>x. handle x \<noteq> handle t) (timers reissued_state)\<rparr>"
    using stale_timer_is_guarded_noop[OF h1 h2 h3 h4 h5 h6 h7 h8] by blast
  then have "fire 1 reissued_state =
     reissued_state\<lparr>timers := [\<lparr>handle = 3, due = 4200000, callback = HardCap ''2222'' 1\<rparr>,
                                \<lparr>handle = 7, due = 3600000, callback = RemoveKey ''2222''\<rparr>]\<rparr>"
    by (simp add: t_def reissued_state_def)
  then show ?thesis using h1 h2 h3 h5 h6 unfolding t_def j_def by simp
qed

subsection \<open>C5: uploads without a live key\<close>



subsection \<open>C6: content types and extensions\<close>




subsection \<open>C7: exit codes of the converters\<close>

text \<open>
  C7.  When \<open>processFile\<close> runs kindlegen (EPUB, a Kindle user agent, the flag set), it
  fails exactly when the process did not close with code 0 or 1, a launch error
  included; afterwards neither the input nor the \<open>.mobi8\<close> file exists, whatever the
  outcome.  When it runs kepubify (EPUB, a Kobo user agent, the flag set, kindlegen not
  chosen), it fails exactly when the process did not close with code 0, and afterwards
  the input does not exist.  A failure of \<open>processFile\<close> adds one failure line for the
  file to the messages of the request and no file record; the loop goes on.
\<close>

theorem converter_exit_codes_and_cleanup:
  "(effective_mimetype file = TYPE_EPUB \<longrightarrow> str_includes ua ''Kindle'' \<longrightarrow> kindlegen req \<longrightarrow>
      isl (fst (processFile l req ua file s)) =
        (ended (converter file) \<noteq> Closed (Some 0) \<and> ended (converter file) \<noteq> Closed (Some 1)) \<and>
      mpath file \<notin> fs (snd (processFile l req ua file s)) \<and>
      replace_end_ci ''.epub'' ''.mobi8'' (mpath file) \<notin> fs (snd (processFile l req ua file s)) \<and>
      (\<forall>rec. fst (processFile l req ua file s) = Inr rec \<longrightarrow>
         conversion rec = Some ''kindlegen'' \<and>
         path rec = replace_end_ci ''.epub'' ''.mobi'' (mpath file))) \<and>
   (effective_mimetype file = TYPE_EPUB \<longrightarrow> \<not> (str_includes ua ''Kindle'' \<and> kindlegen req) \<longrightarrow>
      str_includes ua ''Kobo'' \<longrightarrow> kepubify req \<longrightarrow>
      isl (fst (processFile l req ua file s)) = (ended (converter file) \<noteq> Closed (Some 0)) \<and>
      mpath file \<notin> fs (snd (processFile l req ua file s)) \<and>
      (\<forall>rec. fst (processFile l req ua file s) = Inr rec \<longrightarrow>
         conversion rec = Some ''kepubify'' \<and>
         path rec = replace_end_ci ''.epub'' ''.kepub.epub'' (mpath file))) \<and>
   (\<forall>i err s1 ms ps. msize file \<noteq> 0 \<longrightarrow> obj s r = Some i \<longrightarrow>
      processFile l req (agent i) file s = (Inl err, s1) \<longrightarrow>
      upload_one l req r file (ms, ps, s) =
        (ms @ [ballot_x @ '' Error processing '' @ originalname file @ '': '' @ err], ps,
         unlink (mpath file) s1))"
proof (intro conjI impI allI)
  assume a: "effective_mimetype file = TYPE_EPUB" "str_includes ua ''Kindle''" "kindlegen req"
  obtain res s1 where c: "convert_kindlegen file s = (res, s1)"
    by (cases "convert_kindlegen file s") auto
  note p = processFile_kindlegen[OF a, of l s, unfolded c]
  show "isl (fst (processFile l req ua file s)) =
        (ended (converter file) \<noteq> Closed (Some 0) \<and> ended (converter file) \<noteq> Closed (Some 1))"
    using isl_convert_kindlegen[of "file" s] c by (cases res) (simp_all add: p)
  show "mpath file \<notin> fs (snd (processFile l req ua file s))"
    using fs_convert_kindlegen[of "file" s] c by (cases res) (simp_all add: p)
  show "replace_end_ci ''.epub'' ''.mobi8'' (mpath file) \<notin> fs (snd (processFile l req ua file s))"
    using fs_convert_kindlegen[of "file" s] c by (cases res) (simp_all add: p)
  show "conversion rec = Some ''kindlegen''" if "fst (processFile l req ua file s) = Inr rec" for rec
    using that by (cases res) (auto simp: p)
  show "path rec = replace_end_ci ''.epub'' ''.mobi'' (mpath file)"
    if "fst (processFile l req ua file s) = Inr rec" for rec
    using that c by (cases res) (auto simp: p convert_kindlegen_def Let_def split: ended.splits if_splits)
next
  assume a: "effective_mimetype file = TYPE_EPUB" "\<not> (str_includes ua ''Kindle'' \<and> kindlegen req)"
    "str_includes ua ''Kobo''" "kepubify req"
  obtain res s1 where c: "convert_kepubify file s = (res, s1)"
    by (cases "convert_kepubify file s") auto
  note p = processFile_kepubify[OF a, of l s, unfolded c]
  show "isl (fst (processFile l req ua file s)) = (ended (converter file) \<noteq> Closed (Some 0))"
    using isl_convert_kepubify[of "file" s] c by (cases res) (simp_all add: p)
  show "mpath file \<notin> fs (snd (processFile l req ua file s))"
    using fs_convert_kepubify[of "file" s] c by (cases res) (simp_all add: p)
  show "conversion rec = Some ''kepubify''" if "fst (processFile l req ua file s) = Inr rec" for rec
    using that by (cases res) (auto simp: p)
  show "path rec = replace_end_ci ''.epub'' ''.kepub.epub'' (mpath file)"
    if "fst (processFile l req ua file s) = Inr rec" for rec
    using that c by (cases res) (auto simp: p convert_kepubify_def Let_def split: ended.splits if_splits)
next
  fix i err s1 ms ps
  assume "msize file \<noteq> 0" "obj s r = Some i" "processFile l req (agent i) file s = (Inl err, s1)"
  then show "upload_one l req r file (ms, ps, s) =
        (ms @ [ballot_x @ '' Error processing '' @ originalname file @ '': '' @ err], ps,
         unlink (mpath file) s1)"
    by (simp add: upload_one_def obj_def)
qed

theorem converter_exit_codes_and_cleanup_witness:
  "effective_mimetype epub_part = TYPE_EPUB \<and>
   str_includes ''Kindle/3.0'' ''Kindle'' \<and> kindlegen convert_request \<and>
   \<not> isl (fst (processFile id_lib convert_request ''Kindle/3.0'' epub_part stored_state)) \<and>
   mpath epub_part \<notin> fs (snd (processFile id_lib convert_request ''Kindle/3.0'' epub_part stored_state)) \<and>
   \<not> (str_includes ''Kobo'' ''Kindle'' \<and> kindlegen convert_request) \<and>
   str_includes ''Kobo'' ''Kobo'' \<and> kepubify convert_request \<and>
   isl (fst (processFile id_lib convert_request ''Kobo'' epub_part stored_state)) \<and>
   mpath epub_part \<notin> fs (snd (processFile id_lib convert_request ''Kobo'' epub_part stored_state)) \<and>
   upload_one id_lib convert_request 0 epub_part ([], [], stored_state) =
     ([ballot_x @ '' Error processing book.epub: Kepubify error code: 1'' @ [CHR 0x0A] @ ''warning''], [],
      stored_state\<lparr>fs := {''uploads/files-1-1.pdf'', ''uploads/files-4-4.mobi'',
                            ''uploads/files-4-4.mobi8''}\<rparr>)"
proof -
  define j where "j = \<lparr>created = 0, agent = ''Kobo'',
                 files = [\<lparr>name = ''book.pdf'', path = ''uploads/files-1-1.pdf'', uploaded = 0,
                            conversion = None\<rparr>],
                 urls = [], timer = Some 2, alive = 0\<rparr>"
  have h1: "effective_mimetype epub_part = TYPE_EPUB"
    by (simp add: effective_mimetype_def epub_part_def TYPE_EPUB_def)
  have h2: "str_includes ''Kindle/3.0'' ''Kindle''" by simp
  have h3: "kindlegen convert_request" by (simp add: convert_request_def)
  have h4: "\<not> (str_includes ''Kobo'' ''Kindle'' \<and> kindlegen convert_request)" by simp
  have h5: "str_includes ''Kobo'' ''Kobo''" by simp
  have h6: "kepubify convert_request" by (simp add: convert_request_def)
  have e: "ended (converter epub_part) = Closed (Some 1)" by (simp add: epub_part_def)
  note t = converter_exit_codes_and_cleanup[of epub_part _ convert_request id_lib stored_state 0]
  note k = t[of "''Kindle/3.0''", THEN conjunct1, rule_format, OF h1 h2 h3]
  note b = t[of "''Kobo''", THEN conjunct2, THEN conjunct1, rule_format, OF h1 h4 h5 h6]
  have c1: "\<not> isl (fst (processFile id_lib convert_request ''Kindle/3.0'' epub_part stored_state))"
    using k[THEN conjunct1] e by simp
  have c2: "mpath epub_part \<notin> fs (snd (processFile id_lib convert_request ''Kindle/3.0'' epub_part stored_state))"
    using k by blast
  have c3: "isl (fst (processFile id_lib convert_request ''Kobo'' epub_part stored_state))"
    using b[THEN conjunct1] e by simp
  have c4: "mpath epub_part \<notin> fs (snd (processFile id_lib convert_request ''Kobo'' epub_part stored_state))"
    using b by blast
  have z: "msize epub_part \<noteq> 0" by (simp add: epub_part_def)
  have o: "obj stored_state 0 = Some j" by (simp add: stored_state_def obj_def j_def)
  have p: "processFile id_lib convert_request (agent j) epub_part stored_state =
      (Inl (''Kepubify error code: 1'' @ [CHR 0x0A] @ ''warning''),
       stored_state\<lparr>fs := {''uploads/files-1-1.pdf'', ''uploads/files-4-4.mobi'',
                            ''uploads/files-4-4.mobi8''}\<rparr>)"
    by (simp add: j_def convert_request_def pdf_request_def epub_part_def stored_state_def upload_defs
          lower_letters_def upper_letters_def unlink_def Let_def insert_commute)
  have c5: "upload_one id_lib convert_request 0 epub_part ([], [], stored_state) =
     ([ballot_x @ '' Error processing book.epub: Kepubify error code: 1'' @ [CHR 0x0A] @ ''warning''], [],
      stored_state\<lparr>fs := {''uploads/files-1-1.pdf'', ''uploads/files-4-4.mobi'',
                            ''uploads/files-4-4.mobi8''}\<rparr>)"
  proof -
    have m: "mpath epub_part = ''uploads/files-4-4.epub''"
      by (simp add: epub_part_def mpath_def extname_def toLowerCase_def toLowerCase_chr_def
            lower_letters_def upper_letters_def)
    have n: "originalname epub_part = ''book.epub''" by (simp add: epub_part_def)
    have u: "unlink ''uploads/files-4-4.epub''
               (stored_state\<lparr>fs := {''uploads/files-1-1.pdf'', ''uploads/files-4-4.mobi'',
                                     ''uploads/files-4-4.mobi8''}\<rparr>) =
             stored_state\<lparr>fs := {''uploads/files-1-1.pdf'', ''uploads/files-4-4.mobi'',
                                   ''uploads/files-4-4.mobi8''}\<rparr>"
      by (simp add: unlink_def)
    show ?thesis
      using t[of "''Kobo''", THEN conjunct2, THEN conjunct2, rule_format, OF z o p, of "[]" "[]"]
      unfolding m n u by simp
  qed
  show ?thesis by (intro conjI h1 h2 h3 h4 h5 h6 c1 c2 c3 c4 c5)
qed

subsection \<open>C8: device identity\<close>




subsection \<open>C9: touching a session\<close>

text \<open>
  C9, as amended.  In a reachable state, \<open>expireKey\<close> for a registered key cancels the
  pending renewable timeout of the session, schedules a new one \<open>expireDelay\<close> from now,
  stores its handle in the session and sets \<open>alive\<close> to now; nothing else changes.  For a
  key that is not registered it leaves the registry and the objects as they are, but it
  still schedules a timeout that will call \<open>removeKey\<close> for that key, and returns its
  handle.
\<close>

theorem expireKey_renews_and_always_schedules:
  assumes "s = run l evs init_state"
  shows "(\<forall>r i. keys_get s k = Some (r, i) \<longrightarrow>
            expireKey k s =
              (next_handle s,
               s\<lparr>timers := filter (\<lambda>t. Some (handle t) \<noteq> timer i) (timers s)
                             @ [\<lparr>handle = next_handle s, due = now s + expireDelay * 1000,
                                 callback = RemoveKey k\<rparr>],
                 next_handle := next_handle s + 1,
                 heap := AList.update r (i\<lparr>timer := Some (next_handle s), alive := now s\<rparr>) (heap s)\<rparr>)
            \<and> (\<exists>old \<in> set (timers s). timer i = Some (handle old) \<and> callback old = RemoveKey k)) \<and>
         (keys_get s k = None \<longrightarrow>
            expireKey k s =
              (next_handle s,
               s\<lparr>timers := timers s @ [\<lparr>handle = next_handle s, due = now s + expireDelay * 1000,
                                        callback = RemoveKey k\<rparr>],
                 next_handle := next_handle s + 1\<rparr>))"
proof (intro conjI allI impI)
  fix r i assume g: "keys_get s k = Some (r, i)"
  have i: "inv s" using assms inv_reachable by simp
  from keys_get_SomeD[OF g] have r: "reg s k = Some r" "obj s r = Some i" by simp_all
  from inv_live[OF i r(1)] r(2) obtain a where
    a: "a \<in> set (timers s)" "callback a = RemoveKey k" "timer i = Some (handle a)" by auto
  have lt: "handle a < next_handle s" using inv_timer[OF i a(1)] by simp
  have "filter (\<lambda>t. handle t \<noteq> handle a) (timers s) = filter (\<lambda>t. Some (handle t) \<noteq> timer i) (timers s)"
    by (rule filter_cong) (auto simp: a(3))
  then show "expireKey k s =
              (next_handle s,
               s\<lparr>timers := filter (\<lambda>t. Some (handle t) \<noteq> timer i) (timers s)
                             @ [\<lparr>handle = next_handle s, due = now s + expireDelay * 1000,
                                 callback = RemoveKey k\<rparr>],
                 next_handle := next_handle s + 1,
                 heap := AList.update r (i\<lparr>timer := Some (next_handle s), alive := now s\<rparr>) (heap s)\<rparr>)"
    using g r(2) a(3) lt
    by (simp add: expireKey_def setTimeout_def clearTimeout_def heap_upd_def obj_def)
  show "\<exists>old \<in> set (timers s). timer i = Some (handle old) \<and> callback old = RemoveKey k"
    using a by blast
next
  assume "keys_get s k = None"
  then show "expireKey k s =
              (next_handle s,
               s\<lparr>timers := timers s @ [\<lparr>handle = next_handle s, due = now s + expireDelay * 1000,
                                        callback = RemoveKey k\<rparr>],
                 next_handle := next_handle s + 1\<rparr>)"
    by (simp add: expireKey_def setTimeout_def)
qed

theorem expireKey_renews_and_always_schedules_witness:
  "started_state = run id_lib [Generate ''Kindle'' (\<lambda>_. 0), Advance 600000] init_state \<and>
   keys_get started_state ''2222'' =
     Some (0, \<lparr>created = 0, agent = ''Kindle'', files = [], urls = [], timer = Some 0, alive = 0\<rparr>) \<and>
   keys_get started_state ''ZZZZ'' = None \<and>
   expireKey ''2222'' started_state =
     (2, started_state
          \<lparr>timers := [\<lparr>handle = 1, due = 3600000, callback = HardCap ''2222'' 0\<rparr>,
                      \<lparr>handle = 2, due = 1200000, callback = RemoveKey ''2222''\<rparr>],
            next_handle := 3,
            heap := [(0, \<lparr>created = 0, agent = ''Kindle'', files = [], urls = [], timer = Some 2,
                          alive = 600000\<rparr>)]\<rparr>) \<and>
   expireKey ''ZZZZ'' started_state =
     (2, started_state
          \<lparr>timers := [\<lparr>handle = 0, due = 600000, callback = RemoveKey ''2222''\<rparr>,
                      \<lparr>handle = 1, due = 3600000, callback = HardCap ''2222'' 0\<rparr>,
                      \<lparr>handle = 2, due = 1200000, callback = RemoveKey ''ZZZZ''\<rparr>],
            next_handle := 3\<rparr>)"
proof -
  define j where "j = \<lparr>created = 0, agent = ''Kindle'', files = [], urls = [], timer = Some 0, alive = 0\<rparr>"
  have h1: "started_state = run id_lib [Generate ''Kindle'' (\<lambda>_. 0), Advance 600000] init_state"
    by (simp add: started_run)
  have h2: "keys_get started_state ''2222'' = Some (0, j)"
    by (simp add: started_state_def keys_get_def j_def)
  have h3: "keys_get started_state ''ZZZZ'' = None"
    by (simp add: started_state_def keys_get_def)
  note t1 = expireKey_renews_and_always_schedules[OF h1, of "''2222''", THEN conjunct1, rule_format, OF h2, THEN conjunct1]
  note t2 = expireKey_renews_and_always_schedules[OF h1, of "''ZZZZ''", THEN conjunct2, rule_format, OF h3]
  have c4: "expireKey ''2222'' started_state =
     (2, started_state
          \<lparr>timers := [\<lparr>handle = 1, due = 3600000, callback = HardCap ''2222'' 0\<rparr>,
                      \<lparr>handle = 2, due = 1200000, callback = RemoveKey ''2222''\<rparr>],
            next_handle := 3,
            heap := [(0, \<lparr>created = 0, agent = ''Kindle'', files = [], urls = [], timer = Some 2,
                          alive = 600000\<rparr>)]\<rparr>)"
    unfolding t1 by (simp add: started_state_def expireDelay_def j_def)
  have c5: "expireKey ''ZZZZ'' started_state =
     (2, started_state
          \<lparr>timers := [\<lparr>handle = 0, due = 600000, callback = RemoveKey ''2222''\<rparr>,
                      \<lparr>handle = 1, due = 3600000, callback = HardCap ''2222'' 0\<rparr>,
                      \<lparr>handle = 2, due = 1200000, callback = RemoveKey ''ZZZZ''\<rparr>],
            next_handle := 3\<rparr>)"
    unfolding t2 by (simp add: started_state_def expireDelay_def)
  show ?thesis by (intro conjI h1 h2[unfolded j_def] h3 c4 c5)
qed

text \<open>
  C9 as stated fails: for a key that is not registered the set of pending timeouts
  changes.
\<close>

theorem expireKey_unknown_key_schedules_timer:
  "keys_get init_state ''ZZZZ'' = None \<and>
   timers init_state = [] \<and>
   timers (snd (expireKey ''ZZZZ'' init_state)) =
     [\<lparr>handle = 0, due = 600000, callback = RemoveKey ''ZZZZ''\<rparr>]"
  by (simp add: exec_defs)

subsection \<open>C10: file names for Kindle sessions\<close>

text \<open>
  C10.  When the user agent of the session contains \<open>Kindle\<close>, the display name is the
  transliterated name with every character outside the kept set replaced by an
  underscore, position by position, and every name that \<open>processFile\<close> returns for
  storage consists of kept characters only.  For any other user agent the display name
  is the transliterated name.
\<close>

theorem kindle_session_rewrites_display_name:
  "(str_includes ua ''Kindle'' \<longrightarrow>
      length (display_name l req ua file) = length (transliterated_name l req file) \<and>
      (\<forall>n. n < length (transliterated_name l req file) \<longrightarrow>
         display_name l req ua file ! n =
           (if transliterated_name l req file ! n \<in> kindle_allowed
            then transliterated_name l req file ! n else CHR ''_'')) \<and>
      (\<forall>rec s'. processFile l req ua file s = (Inr rec, s') \<longrightarrow> set (name rec) \<subseteq> kindle_allowed)) \<and>
   (\<not> str_includes ua ''Kindle'' \<longrightarrow>
      display_name l req ua file = transliterated_name l req file)"
proof (intro conjI impI allI)
  assume k: "str_includes ua ''Kindle''"
  then have d: "display_name l req ua file = kindle_replace (transliterated_name l req file)"
    by (simp add: display_name_def)
  show "length (display_name l req ua file) = length (transliterated_name l req file)"
    by (simp add: d kindle_replace_def)
  show "display_name l req ua file ! n =
           (if transliterated_name l req file ! n \<in> kindle_allowed
            then transliterated_name l req file ! n else CHR ''_'')"
    if "n < length (transliterated_name l req file)" for n
    using that by (simp add: d kindle_replace_def kindle_keep_iff)
  fix rec s' assume p: "processFile l req ua file s = (Inr rec, s')"
  have A: "set (display_name l req ua file) \<subseteq> kindle_allowed"
    unfolding d by (rule set_kindle_replace)
  note R = set_replace_twice[OF A]
  have "name rec = replace_end_ci ''.epub'' ''.mobi''
                     (replace_end_ci ''.kepub.epub'' ''.epub'' (display_name l req ua file))
        \<or> name rec = replace_end_ci ''.epub'' ''.kepub.epub''
                     (replace_end_ci ''.kepub.epub'' ''.epub'' (display_name l req ua file))
        \<or> name rec = replace_end_ci ''.pdf'' ''.pdf''
                     (replace_end_ci ''.epub'' ''.epub'' (display_name l req ua file))"
    using p by (auto simp: processFile_def Let_def split: if_splits prod.splits sum.splits)
  then show "set (name rec) \<subseteq> kindle_allowed"
    using R[OF kindle_suffixes(2) kindle_suffixes(1), of "''.epub''" "''.kepub.epub''"]
      R[OF kindle_suffixes(2) kindle_suffixes(3), of "''.epub''" "''.kepub.epub''"]
      R[OF kindle_suffixes(2) kindle_suffixes(4), of "''.pdf''" "''.epub''"]
    by (elim disjE) simp_all
next
  assume "\<not> str_includes ua ''Kindle''"
  then show "display_name l req ua file = transliterated_name l req file"
    by (simp add: display_name_def)
qed

theorem kindle_session_rewrites_display_name_witness:
  "str_includes ''Kindle/3.0'' ''Kindle'' \<and>
   length (display_name id_lib pdf_request ''Kindle/3.0'' odd_name_part) = 13 \<and>
   display_name id_lib pdf_request ''Kindle/3.0'' odd_name_part ! 2 = CHR ''_'' \<and>
   display_name id_lib pdf_request ''Kindle/3.0'' odd_name_part ! 3 = CHR ''b'' \<and>
   \<not> str_includes ''Kobo Touch'' ''Kindle'' \<and>
   display_name id_lib pdf_request ''Kobo Touch'' odd_name_part = ''my book#1.pdf''"
proof -
  have t: "transliterated_name id_lib pdf_request odd_name_part = ''my book#1.pdf''"
    by (simp add: transliterated_name_def odd_name_part_def pdf_part_def pdf_request_def)
  have h1: "str_includes ''Kindle/3.0'' ''Kindle''" by simp
  have h2: "\<not> str_includes ''Kobo Touch'' ''Kindle''" by simp
  have m: "CHR '' '' \<notin> kindle_allowed" "CHR ''b'' \<in> kindle_allowed"
    by (simp_all add: kindle_allowed_def)
  note k = kindle_session_rewrites_display_name[of "''Kindle/3.0''" id_lib pdf_request odd_name_part init_state,
      THEN conjunct1, rule_format, OF h1, unfolded t]
  note o = kindle_session_rewrites_display_name[of "''Kobo Touch''" id_lib pdf_request odd_name_part init_state,
      THEN conjunct2, rule_format, OF h2, unfolded t]
  have c1: "length (display_name id_lib pdf_request ''Kindle/3.0'' odd_name_part) = 13"
    using k by simp
  have c2: "display_name id_lib pdf_request ''Kindle/3.0'' odd_name_part ! 2 = CHR ''_''"
    using k[THEN conjunct2, THEN conjunct1, rule_format, of 2] m by simp
  have c3: "display_name id_lib pdf_request ''Kindle/3.0'' odd_name_part ! 3 = CHR ''b''"
    using k[THEN conjunct2, THEN conjunct1, rule_format, of 3] m by simp
  show ?thesis by (intro conjI h1 h2 c1 c2 c3 o)
qed

end
